theory Spec2Isabelle
  imports Main "HOL-Library.Word"
begin

section \<open>Data model of machined-core.c\<close>

text \<open>
  The file \<^verbatim>\<open>src/machine/machined-core.c\<close> holds the registry lookups, the garbage
  collection pass and the address resolution of the machine manager. The structures it
  works on (\<^verbatim>\<open>Machine\<close>, \<^verbatim>\<open>Manager\<close>, \<^verbatim>\<open>PidRef\<close>) and the helpers it calls are declared
  in other files; they are modelled after the specification, each such definition saying so.

  Machine objects live in a store addressed by pointers; the indices and the GC queue
  hold pointers, as the C code does. A function that dereferences a pointer that is not
  live, or whose \<^verbatim>\<open>assert\<close> fails, does not return: its model yields \<open>None\<close>.
\<close>

type_synonym machine_ptr = nat
type_synonym pid_t = int
type_synonym uid_t = "32 word"
type_synonym gid_t = "32 word"
type_synonym byte = "8 word"

subsection \<open>Error numbers and exit statuses\<close>

text \<open>The values of \<^verbatim>\<open>errno.h\<close> and \<^verbatim>\<open>stdlib.h\<close> on Linux.\<close>

definition EIO :: int where "EIO = 5"
definition ENOEXEC :: int where "ENOEXEC = 8"
definition ECHILD :: int where "ECHILD = 10"
definition ENOMEM :: int where "ENOMEM = 12"
definition ENONET :: int where "ENONET = 64"
definition ENOTSUP :: int where "ENOTSUP = 95"
definition ESHUTDOWN :: int where "ESHUTDOWN = 108"

definition EXIT_SUCCESS :: int where "EXIT_SUCCESS = 0"
definition EXIT_FAILURE :: int where "EXIT_FAILURE = 1"

subsection \<open>Machines\<close>

text \<open>
  Modelled from the spec: the enumerations \<^verbatim>\<open>MachineClass\<close> and \<^verbatim>\<open>MachineState\<close>
  (machine.h) are not part of the file. A machine is the host, a container, a VM or not
  yet classified (\<^verbatim>\<open>_MACHINE_CLASS_INVALID\<close>), and it is Opening, Running or Closing.
\<close>

datatype MachineClass =
  MACHINE_CONTAINER | MACHINE_VM | MACHINE_HOST | MACHINE_CLASS_INVALID

datatype MachineState = MACHINE_OPENING | MACHINE_RUNNING | MACHINE_CLOSING

text \<open>
  Modelled from the spec: \<^verbatim>\<open>PidRef\<close> (pidref.h) is not part of the file. The leader index
  is looked up with a handle built from the raw PID alone.
\<close>

record PidRef =
  pid :: pid_t

text \<open>
  Modelled from the spec: \<^verbatim>\<open>PIDREF_MAKE_FROM_PID\<close> (pidref.h) is not part of the file. It
  builds the handle from the raw PID.
\<close>

definition PIDREF_MAKE_FROM_PID :: "pid_t \<Rightarrow> PidRef" where
  "PIDREF_MAKE_FROM_PID p = \<lparr>pid = p\<rparr>"

text \<open>
  Modelled from the spec: \<^verbatim>\<open>struct Machine\<close> (machine.h) is not part of the file. The
  fields are those of the specification's data model; \<open>external_refs\<close> counts the
  outstanding external references that the may-collect test speaks of.
\<close>

record Machine =
  name :: string
  machine_class :: MachineClass
  leader :: PidRef
  unit_name :: "string option"
  state :: MachineState
  in_gc_queue :: bool
  external_refs :: nat
  uid_shift :: uid_t
  uid_range :: uid_t
  gid_shift :: gid_t
  gid_range :: gid_t

subsection \<open>Hash maps\<close>

text \<open>
  Modelled from the spec: \<^verbatim>\<open>Hashmap\<close> (hashmap.h) is not part of the file. An index is
  an association list of keys and Machine pointers; the order of the list is the order in
  which \<^verbatim>\<open>HASHMAP_FOREACH\<close> visits the entries.
\<close>

type_synonym ('k, 'v) hashmap = "('k \<times> 'v) list"

text \<open>Modelled from the spec: \<^verbatim>\<open>hashmap_get\<close> yields the entry of a key, if there is one.\<close>

definition hashmap_get :: "('k, 'v) hashmap \<Rightarrow> 'k \<Rightarrow> 'v option" where
  "hashmap_get h k = map_of h k"

text \<open>Modelled from the spec: the values that \<^verbatim>\<open>HASHMAP_FOREACH\<close> visits, in order.\<close>

definition hashmap_values :: "('k, 'v) hashmap \<Rightarrow> 'v list" where
  "hashmap_values h = map snd h"

text \<open>
  Modelled from the spec: \<^verbatim>\<open>hashmap_put\<close> appends the entry of a key that is absent and
  leaves a present key alone.
\<close>

definition hashmap_put :: "('k, 'v) hashmap \<Rightarrow> 'k \<Rightarrow> 'v \<Rightarrow> ('k, 'v) hashmap" where
  "hashmap_put h k v = (case map_of h k of None \<Rightarrow> h @ [(k, v)] | Some _ \<Rightarrow> h)"

text \<open>Modelled from the spec: removing a Machine from an index removes every entry of it.\<close>

definition hashmap_remove_value :: "('k, 'v) hashmap \<Rightarrow> 'v \<Rightarrow> ('k, 'v) hashmap" where
  "hashmap_remove_value h v = filter (\<lambda>e. snd e \<noteq> v) h"

subsection \<open>The manager\<close>

text \<open>
  The handler of an event source: \<^verbatim>\<open>on_deferred_gc\<close> of this file, or a function of
  another file.
\<close>

datatype event_handler = On_deferred_gc | Handler_elsewhere string

text \<open>
  Modelled from the spec: the event sources of sd-event (sd-event.h) are not part of the
  file. A source has a handler, is off, on or armed for one dispatch, and has a priority
  (idle is the lowest urgency used here) and a description.
\<close>

datatype event_enabled = SD_EVENT_OFF | SD_EVENT_ON | SD_EVENT_ONESHOT

definition SD_EVENT_PRIORITY_NORMAL :: int where "SD_EVENT_PRIORITY_NORMAL = 0"
definition SD_EVENT_PRIORITY_IDLE :: int where "SD_EVENT_PRIORITY_IDLE = 100"

record event_source =
  handler :: event_handler
  enabled :: event_enabled
  priority :: int
  description :: string

text \<open>Calls of the GC pass to functions of machine.c, in the order they are made.\<close>

datatype gc_call = Call_stop machine_ptr | Call_finalize machine_ptr | Call_free machine_ptr

text \<open>
  Modelled from the spec: \<^verbatim>\<open>struct Manager\<close> (machined.h) is not part of the file. Besides
  the three indices, the GC queue and the deferred event source, the state carries the
  store of live Machine objects (\<open>heap\<close>) and the record of calls made by the GC pass
  (\<open>gc_trace\<close>).
\<close>

record Manager =
  machines :: "(string, machine_ptr) hashmap"
  machines_by_leader :: "(PidRef, machine_ptr) hashmap"
  machines_by_unit :: "(string, machine_ptr) hashmap"
  machine_gc_queue :: "machine_ptr list"
  deferred_gc_event_source :: "event_source option"
  heap :: "machine_ptr \<rightharpoonup> Machine"
  gc_trace :: "gc_call list"

section \<open>Registry lookups\<close>

text \<open>
  Modelled from the spec: \<^verbatim>\<open>pid_is_valid\<close> (process-util.h) is not part of the file; a
  PID is a positive integer.
\<close>

definition pid_is_valid :: "pid_t \<Rightarrow> bool" where
  "pid_is_valid p = (0 < p)"

text \<open>
  \<^verbatim>\<open>manager_get_machine_by_pid\<close>. What \<^verbatim>\<open>cg_pid_get_unit\<close> (cgroup-util.h) yields for
  a PID is a parameter: the returned integer (negative on failure) and the unit name.
  The result is the returned integer and the pointer stored in \<^verbatim>\<open>*ret\<close>.
\<close>

definition manager_get_machine_by_pid ::
  "(pid_t \<Rightarrow> int \<times> string) \<Rightarrow> Manager \<Rightarrow> pid_t \<Rightarrow> (int \<times> machine_ptr option) option" where
  "manager_get_machine_by_pid cg_pid_get_unit m p =
     (if \<not> pid_is_valid p then None
      else
        let mm = hashmap_get (machines_by_leader m) (PIDREF_MAKE_FROM_PID p);
            mm = (case mm of
                    Some x \<Rightarrow> Some x
                  | None \<Rightarrow>
                      (case cg_pid_get_unit p of
                         (r, unit) \<Rightarrow>
                           if r \<ge> 0 then hashmap_get (machines_by_unit m) unit else None))
        in (case mm of
              None \<Rightarrow> Some (0, None)
            | Some x \<Rightarrow> Some (1, Some x)))"

subsection \<open>Creating machines\<close>

text \<open>
  Modelled from the spec: \<^verbatim>\<open>machine_new\<close> (machine.c) is not part of the file. It
  constructs a Machine in state Opening with the given class and name. Its outcome is a
  parameter: the returned integer \<open>new_r\<close> (negative on failure) and the address \<open>new_p\<close>
  of the object it allocates on success. The result is the returned integer, the pointer
  stored in \<^verbatim>\<open>*ret\<close> and the manager.
\<close>

definition machine_new ::
  "int \<Rightarrow> machine_ptr \<Rightarrow> MachineClass \<Rightarrow> string \<Rightarrow> Manager \<Rightarrow> int \<times> machine_ptr \<times> Manager" where
  "machine_new new_r new_p c n m =
     (if new_r < 0 then (new_r, new_p, m)
      else
        (new_r, new_p,
         m\<lparr>heap := (heap m)(new_p \<mapsto>
             \<lparr>name = n, machine_class = c, leader = \<lparr>pid = 0\<rparr>, unit_name = None,
              state = MACHINE_OPENING, in_gc_queue = False, external_refs = 0,
              uid_shift = 0, uid_range = 0, gid_shift = 0, gid_range = 0\<rparr>)\<rparr>))"

text \<open>
  Modelled from the spec: the insertion of a Machine into the name index, under its name,
  that \<^verbatim>\<open>machine_link\<close> makes.
\<close>

definition link_name_index :: "Manager \<Rightarrow> machine_ptr \<Rightarrow> Manager" where
  "link_name_index m p =
     (case heap m p of
        None \<Rightarrow> m
      | Some mc \<Rightarrow> m\<lparr>machines := hashmap_put (machines m) (name mc) p\<rparr>)"

text \<open>
  Modelled from the spec: \<^verbatim>\<open>machine_link\<close> (machine.c) is not part of the file. It inserts
  the Machine into the name index. Its outcome is a parameter: the returned integer
  \<open>link_r\<close> (negative on failure) and, for a failure, whether the name index had already
  been written when it occurred (\<open>written\<close>).
\<close>

definition machine_link :: "int \<Rightarrow> bool \<Rightarrow> Manager \<Rightarrow> machine_ptr \<Rightarrow> int \<times> Manager" where
  "machine_link link_r written m p =
     (if link_r < 0 then (link_r, if written then link_name_index m p else m)
      else (link_r, link_name_index m p))"

text \<open>
  Modelled from the spec: \<^verbatim>\<open>machine_free\<close> (machine.c) is not part of the file. It
  destroys the entry, removing it from every index.
\<close>

definition machine_free :: "Manager \<Rightarrow> machine_ptr \<Rightarrow> Manager" where
  "machine_free m p =
     m\<lparr>machines := hashmap_remove_value (machines m) p,
       machines_by_leader := hashmap_remove_value (machines_by_leader m) p,
       machines_by_unit := hashmap_remove_value (machines_by_unit m) p,
       heap := (heap m)(p := None)\<rparr>"

text \<open>
  \<^verbatim>\<open>manager_add_machine\<close>. The result is the returned integer, the pointer stored in
  \<^verbatim>\<open>*ret\<close> (\<open>None\<close> when nothing is stored) and the manager.
\<close>

definition manager_add_machine ::
  "int \<Rightarrow> machine_ptr \<Rightarrow> int \<Rightarrow> bool \<Rightarrow> Manager \<Rightarrow> string \<Rightarrow>
   int \<times> machine_ptr option \<times> Manager" where
  "manager_add_machine new_r new_p link_r written m n =
     (case hashmap_get (machines m) n of
        Some machine \<Rightarrow> (0, Some machine, m)
      | None \<Rightarrow>
          (case machine_new new_r new_p MACHINE_CLASS_INVALID n m of
             (r, machine, m1) \<Rightarrow>
               if r < 0 then (r, None, m1)
               else
                 (case machine_link link_r written m1 machine of
                    (r, m2) \<Rightarrow>
                      if r < 0 then (r, None, machine_free m2 machine)
                      else (0, Some machine, m2))))"

subsection \<open>Lookup by host UID and GID\<close>

text \<open>
  Modelled from the spec: \<^verbatim>\<open>UID_INVALID\<close> and \<^verbatim>\<open>GID_INVALID\<close> (user-util.h) are not part
  of the file. The invalid sentinel is the all-ones value of the 32-bit type.
\<close>

definition UID_INVALID :: uid_t where "UID_INVALID = - 1"
definition GID_INVALID :: gid_t where "GID_INVALID = - 1"

text \<open>
  Modelled from the spec: \<^verbatim>\<open>uid_is_valid\<close> and \<^verbatim>\<open>gid_is_valid\<close> (user-util.h) are not
  part of the file. An ID is valid unless it is the invalid sentinel.
\<close>

definition uid_is_valid :: "uid_t \<Rightarrow> bool" where
  "uid_is_valid u = (u \<noteq> UID_INVALID)"

definition gid_is_valid :: "gid_t \<Rightarrow> bool" where
  "gid_is_valid g = (g \<noteq> GID_INVALID)"

text \<open>
  Modelled from the spec: a host ID falls inside the range of a Machine that starts at
  the stored shift and has the stored length.
\<close>

definition id_in_range :: "32 word \<Rightarrow> 32 word \<Rightarrow> 32 word \<Rightarrow> bool" where
  "id_in_range shift len u = (unat shift \<le> unat u \<and> unat u < unat shift + unat len)"

text \<open>
  Modelled from the spec: \<^verbatim>\<open>machine_owns_uid\<close> (machine.c) is not part of the file. A
  Machine owns the host UIDs of its range, and the internal UID is the host UID minus the
  stored shift. Whether the translation fails for a machine, and with which negative
  code, is a parameter. The result is the returned integer and the value stored in
  \<^verbatim>\<open>converted\<close>.
\<close>

definition machine_owns_uid :: "(Machine \<Rightarrow> int option) \<Rightarrow> Machine \<Rightarrow> uid_t \<Rightarrow> int \<times> uid_t" where
  "machine_owns_uid failure machine u =
     (case failure machine of
        Some r \<Rightarrow> (r, UID_INVALID)
      | None \<Rightarrow>
          if id_in_range (uid_shift machine) (uid_range machine) u
          then (1, u - uid_shift machine)
          else (0, UID_INVALID))"

text \<open>
  Modelled from the spec: \<^verbatim>\<open>machine_owns_gid\<close> (machine.c) is not part of the file; it is
  \<^verbatim>\<open>machine_owns_uid\<close> for the GID range and shift.
\<close>

definition machine_owns_gid :: "(Machine \<Rightarrow> int option) \<Rightarrow> Machine \<Rightarrow> gid_t \<Rightarrow> int \<times> gid_t" where
  "machine_owns_gid failure machine g =
     (case failure machine of
        Some r \<Rightarrow> (r, GID_INVALID)
      | None \<Rightarrow>
          if id_in_range (gid_shift machine) (gid_range machine) g
          then (1, g - gid_shift machine)
          else (0, GID_INVALID))"

text \<open>
  What the lookup leaves behind: a negative return value (the outputs are not written), or
  the returned truth value with the contents of \<^verbatim>\<open>*ret_machine\<close> and of the internal ID.
\<close>

datatype find_result = Find_error int | Find_return bool "machine_ptr option" "32 word"

text \<open>
  The \<^verbatim>\<open>HASHMAP_FOREACH\<close> loop, which \<^verbatim>\<open>manager_find_machine_for_uid\<close> and
  \<^verbatim>\<open>manager_find_machine_for_gid\<close> share word for word; \<open>owns\<close> is the ownership test
  and \<open>invalid\<close> the sentinel stored when the loop finds nothing.
\<close>

fun find_machine_loop ::
  "(Machine \<Rightarrow> 32 word \<Rightarrow> int \<times> 32 word) \<Rightarrow> 32 word \<Rightarrow> (machine_ptr \<rightharpoonup> Machine) \<Rightarrow>
   machine_ptr list \<Rightarrow> 32 word \<Rightarrow> find_result option" where
  "find_machine_loop owns invalid h [] u = Some (Find_return False None invalid)"
| "find_machine_loop owns invalid h (machine # rest) u =
     (case h machine of
        None \<Rightarrow> None
      | Some mc \<Rightarrow>
          (case owns mc u of
             (r, converted) \<Rightarrow>
               if r < 0 then Some (Find_error r)
               else if r \<noteq> 0 then Some (Find_return True (Some machine) converted)
               else find_machine_loop owns invalid h rest u))"

definition manager_find_machine_for_uid ::
  "(Machine \<Rightarrow> int option) \<Rightarrow> Manager \<Rightarrow> uid_t \<Rightarrow> find_result option" where
  "manager_find_machine_for_uid failure m u =
     (if \<not> uid_is_valid u then None
      else find_machine_loop (machine_owns_uid failure) UID_INVALID (heap m)
             (hashmap_values (machines m)) u)"

definition manager_find_machine_for_gid ::
  "(Machine \<Rightarrow> int option) \<Rightarrow> Manager \<Rightarrow> gid_t \<Rightarrow> find_result option" where
  "manager_find_machine_for_gid failure m g =
     (if \<not> gid_is_valid g then None
      else find_machine_loop (machine_owns_gid failure) GID_INVALID (heap m)
             (hashmap_values (machines m)) g)"

section \<open>Garbage collection\<close>

text \<open>
  Modelled from the spec: \<^verbatim>\<open>machine_get_state\<close> (machine.c) is not part of the file. It
  yields the lifecycle state of the Machine.
\<close>

definition machine_get_state :: "Machine \<Rightarrow> MachineState" where
  "machine_get_state machine = state machine"

text \<open>
  Modelled from the spec: \<^verbatim>\<open>machine_may_gc\<close> (machine.c) is not part of the file.
  May-collect holds iff the Machine has no outstanding external references and (the
  caller allows dropping not-yet-started machines or the Machine has progressed past
  Opening).
\<close>

definition machine_may_gc :: "Machine \<Rightarrow> bool \<Rightarrow> bool" where
  "machine_may_gc machine drop_not_started =
     (external_refs machine = 0 \<and>
      (drop_not_started \<or> machine_get_state machine \<noteq> MACHINE_OPENING))"

text \<open>
  Modelled from the spec: \<^verbatim>\<open>machine_finalize\<close> (machine.c) is not part of the file. It
  releases resources held by the machine (namespace handles, scope and unit bookkeeping),
  none of which is part of the state modelled here.
\<close>

definition machine_finalize :: "Manager \<Rightarrow> machine_ptr \<Rightarrow> Manager" where
  "machine_finalize m p = m"

text \<open>
  Modelled from the spec: \<^verbatim>\<open>machine_stop\<close> (machine.c) is not part of the file. It
  initiates the transition toward Closing and may change the reference state of the
  Machine; the state and the number of references it leaves are the parameter \<open>stop\<close>.
\<close>

type_synonym stop_effect = "Machine \<Rightarrow> MachineState \<times> nat"

definition machine_stop :: "stop_effect \<Rightarrow> Machine \<Rightarrow> Machine" where
  "machine_stop stop machine =
     (case stop machine of (s, refs) \<Rightarrow> machine\<lparr>state := s, external_refs := refs\<rparr>)"

text \<open>
  The body of the \<^verbatim>\<open>while\<close> loop of \<^verbatim>\<open>manager_gc\<close> for the popped \<open>machine\<close>, whose
  object is \<open>mc\<close>.
\<close>

definition manager_gc_body ::
  "stop_effect \<Rightarrow> bool \<Rightarrow> machine_ptr \<Rightarrow> Machine \<Rightarrow> Manager \<Rightarrow> Manager" where
  "manager_gc_body stop drop_not_started machine mc m =
     (let mc1 = mc\<lparr>in_gc_queue := False\<rparr>;
          stopping = (machine_may_gc mc1 drop_not_started \<and>
                      machine_get_state mc1 \<noteq> MACHINE_CLOSING);
          mc2 = (if stopping then machine_stop stop mc1 else mc1);
          m1 = m\<lparr>heap := (heap m)(machine \<mapsto> mc2),
                 gc_trace := gc_trace m @ (if stopping then [Call_stop machine] else [])\<rparr>
      in if machine_may_gc mc2 drop_not_started
         then machine_free
                (machine_finalize
                   (m1\<lparr>gc_trace := gc_trace m1 @ [Call_finalize machine, Call_free machine]\<rparr>)
                   machine)
                machine
         else m1)"

text \<open>\<^verbatim>\<open>manager_gc\<close>: pop the head of the queue until the queue is empty.\<close>

function manager_gc :: "stop_effect \<Rightarrow> Manager \<Rightarrow> bool \<Rightarrow> Manager option" where
  "manager_gc stop m drop_not_started =
     (case machine_gc_queue m of
        [] \<Rightarrow> Some m
      | machine # rest \<Rightarrow>
          (case heap m machine of
             None \<Rightarrow> None
           | Some mc \<Rightarrow>
               manager_gc stop
                 (manager_gc_body stop drop_not_started machine mc
                    (m\<lparr>machine_gc_queue := rest\<rparr>))
                 drop_not_started))"
  by pat_completeness auto
termination
  by (relation "measure (\<lambda>(stop, m, drop_not_started). length (machine_gc_queue m))")
     (auto simp: manager_gc_body_def machine_free_def machine_finalize_def Let_def)

declare manager_gc.simps [simp del]

text \<open>\<^verbatim>\<open>on_deferred_gc\<close>: the returned integer and the manager after the pass.\<close>

definition on_deferred_gc :: "stop_effect \<Rightarrow> Manager \<Rightarrow> (int \<times> Manager) option" where
  "on_deferred_gc stop userdata =
     (case manager_gc stop userdata True of
        None \<Rightarrow> None
      | Some m \<Rightarrow> Some (0, m))"

text \<open>
  The integers returned by the sd-event calls that \<^verbatim>\<open>manager_enqueue_gc\<close> makes (negative
  on failure).
\<close>

record sd_event_results =
  set_enabled_r :: int
  add_defer_r :: int
  set_priority_r :: int
  set_description_r :: int

text \<open>
  Modelled from the spec: \<^verbatim>\<open>sd_event_add_defer\<close> (sd-event.c) is not part of the file. The
  deferred source it creates is armed for one dispatch, at normal priority.
\<close>

definition sd_event_add_defer :: "event_handler \<Rightarrow> event_source" where
  "sd_event_add_defer cb =
     \<lparr>handler = cb, enabled = SD_EVENT_ONESHOT, priority = SD_EVENT_PRIORITY_NORMAL,
      description = []\<rparr>"

text \<open>
  Modelled from the spec: \<^verbatim>\<open>sd_event_source_set_enabled\<close> (sd-event.c) is not part of the
  file. It re-arms the source; a call that fails changes nothing.
\<close>

definition sd_event_source_set_enabled :: "int \<Rightarrow> event_source \<Rightarrow> event_enabled \<Rightarrow> event_source" where
  "sd_event_source_set_enabled r s e = (if r < 0 then s else s\<lparr>enabled := e\<rparr>)"

text \<open>
  Modelled from the spec: \<^verbatim>\<open>sd_event_source_set_priority\<close> (sd-event.c) is not part of the
  file. It sets the priority; a call that fails changes nothing.
\<close>

definition sd_event_source_set_priority :: "int \<Rightarrow> event_source \<Rightarrow> int \<Rightarrow> event_source" where
  "sd_event_source_set_priority r s p = (if r < 0 then s else s\<lparr>priority := p\<rparr>)"

text \<open>
  Modelled from the spec: \<^verbatim>\<open>sd_event_source_set_description\<close> (sd-event.c) is not part of
  the file. It names the source; a call that fails changes nothing.
\<close>

definition sd_event_source_set_description :: "int \<Rightarrow> event_source \<Rightarrow> string \<Rightarrow> event_source" where
  "sd_event_source_set_description r s d = (if r < 0 then s else s\<lparr>description := d\<rparr>)"

text \<open>\<^verbatim>\<open>manager_enqueue_gc\<close>; the warnings it logs are not modelled.\<close>

definition manager_enqueue_gc :: "sd_event_results \<Rightarrow> Manager \<Rightarrow> Manager" where
  "manager_enqueue_gc ev m =
     (case deferred_gc_event_source m of
        Some s \<Rightarrow>
          m\<lparr>deferred_gc_event_source :=
              Some (sd_event_source_set_enabled (set_enabled_r ev) s SD_EVENT_ONESHOT)\<rparr>
      | None \<Rightarrow>
          if add_defer_r ev < 0 then m
          else
            let s = sd_event_add_defer On_deferred_gc;
                s = sd_event_source_set_priority (set_priority_r ev) s SD_EVENT_PRIORITY_IDLE;
                s = sd_event_source_set_description (set_description_r ev) s ''deferred-gc''
            in m\<lparr>deferred_gc_event_source := Some s\<rparr>)"

text \<open>
  Modelled from the spec: the event loop (sd-event.c) is not part of the file. When the
  deferred task runs, the loop calls the handler of the source with the manager as user
  data; what a handler of another file does is the parameter \<open>elsewhere\<close>.
\<close>

definition dispatch_source ::
  "(string \<Rightarrow> stop_effect \<Rightarrow> Manager \<Rightarrow> (int \<times> Manager) option) \<Rightarrow> event_source \<Rightarrow>
   stop_effect \<Rightarrow> Manager \<Rightarrow> (int \<times> Manager) option" where
  "dispatch_source elsewhere s stop userdata =
     (case handler s of
        On_deferred_gc \<Rightarrow> on_deferred_gc stop userdata
      | Handler_elsewhere f \<Rightarrow> elsewhere f stop userdata)"

section \<open>Address resolution\<close>

text \<open>
  Modelled from the spec: \<^verbatim>\<open>struct local_address\<close> (local-addresses.h) is not part of the
  file. An address is a family and the address bytes; the code also sets an interface
  index and a scope.
\<close>

record local_address =
  ifindex :: int
  scope :: byte
  family :: int
  address :: "byte list"

text \<open>The address families of \<^verbatim>\<open>sys/socket.h\<close> on Linux.\<close>

definition AF_INET :: int where "AF_INET = 2"
definition AF_INET6 :: int where "AF_INET6 = 10"

text \<open>
  Modelled from the spec: \<^verbatim>\<open>FAMILY_ADDRESS_SIZE\<close> (in-addr-util.h) is not part of the file.
  The address has 4 bytes for IPv4 and 16 for IPv6; what the macro yields for any other
  family is the parameter \<open>other\<close>.
\<close>

definition FAMILY_ADDRESS_SIZE :: "(int \<Rightarrow> nat) \<Rightarrow> int \<Rightarrow> nat" where
  "FAMILY_ADDRESS_SIZE other f =
     (if f = AF_INET then 4 else if f = AF_INET6 then 16 else other f)"

text \<open>
  A record on the channel is the family tag, an \<^verbatim>\<open>int\<close> of four bytes in host byte order
  (least significant byte first), followed by the address bytes.
\<close>

definition sizeof_family :: nat where "sizeof_family = 4"

definition family_of :: "byte list \<Rightarrow> int" where
  "family_of bs =
     sint (word_of_nat (foldr (\<lambda>b acc. unat b + 256 * acc) (take sizeof_family bs) 0) :: 32 word)"

definition in_addr_of :: "byte list \<Rightarrow> byte list" where
  "in_addr_of bs = drop sizeof_family bs"

definition family_bytes :: "int \<Rightarrow> byte list" where
  "family_bytes f =
     (let w = (word_of_int f :: 32 word)
      in [ucast w, ucast (drop_bit 8 w), ucast (drop_bit 16 w), ucast (drop_bit 24 w)])"

text \<open>
  What one call of \<^verbatim>\<open>recvmsg_safe\<close> (socket-util.h) yields: the returned integer \<open>recv_n\<close>
  (a negative error code, or the number of bytes received, 0 when the channel is closed)
  and the bytes stored through the two buffers, the family tag first.
\<close>

record recv_result =
  recv_n :: int
  recv_data :: "byte list"

text \<open>
  Modelled from the spec: \<^verbatim>\<open>add_local_address\<close> (local-addresses.c) is not part of the
  file. It appends the decoded record to the result list; whether its allocation succeeds
  is a parameter. The result is the returned integer and the list.
\<close>

definition add_local_address ::
  "bool \<Rightarrow> local_address list \<Rightarrow> int \<Rightarrow> byte \<Rightarrow> int \<Rightarrow> byte list \<Rightarrow> int \<times> local_address list" where
  "add_local_address alloc_ok list ifi sc fam a =
     (if alloc_ok
      then (1, list @ [\<lparr>ifindex = ifi, scope = sc, family = fam, address = a\<rparr>])
      else (- ENOMEM, list))"

text \<open>
  The parent's \<^verbatim>\<open>for (;;)\<close> loop of \<^verbatim>\<open>machine_get_addresses\<close>. The third argument lists
  what the successive calls of \<^verbatim>\<open>recvmsg_safe\<close> yield; once it is used up the channel is
  closed and drained, and the next call receives nothing. \<open>Inl r\<close> is the \<^verbatim>\<open>return r\<close> out of
  the loop, \<open>Inr list\<close> the list at the \<^verbatim>\<open>break\<close>.
\<close>

fun receive_loop ::
  "(int \<Rightarrow> nat) \<Rightarrow> (nat \<Rightarrow> bool) \<Rightarrow> recv_result list \<Rightarrow> local_address list \<Rightarrow>
   int + local_address list" where
  "receive_loop fas alloc_ok [] list = Inr list"
| "receive_loop fas alloc_ok (rcv # rest) list =
     (let n = recv_n rcv; fam = family_of (recv_data rcv); in_addr = in_addr_of (recv_data rcv) in
      if n < 0 then Inl n
      else if nat n < sizeof_family then Inr list
      else if nat n \<noteq> sizeof_family + fas fam then Inl (- EIO)
      else
        (case add_local_address (alloc_ok (length list)) list 0 0 fam in_addr of
           (r, list') \<Rightarrow>
             if r < 0 then Inl r else receive_loop fas alloc_ok rest list'))"

text \<open>
  The worker's loop: one \<^verbatim>\<open>writev\<close> per address, of the family tag and the address bytes
  of that family. The result is the exit status and the records written.
\<close>

fun worker_loop ::
  "(int \<Rightarrow> nat) \<Rightarrow> (nat \<Rightarrow> int) \<Rightarrow> nat \<Rightarrow> local_address list \<Rightarrow> byte list list \<Rightarrow>
   int \<times> byte list list" where
  "worker_loop fas writev_r i [] sent = (EXIT_SUCCESS, sent)"
| "worker_loop fas writev_r i (a # rest) sent =
     (if writev_r i < 0 then (EXIT_FAILURE, sent)
      else worker_loop fas writev_r (Suc i) rest
             (sent @ [family_bytes (family a) @ take (fas (family a)) (address a)]))"

text \<open>
  The outcomes of the calls that \<^verbatim>\<open>machine_get_addresses\<close> makes to the system and to
  other files.
\<close>

record addr_env =
  local_addresses_r :: "int \<times> local_address list"
  in_same_namespace_r :: "pid_t \<Rightarrow> int"
  pidref_namespace_open_r :: int
  socketpair_r :: int
  errno_v :: int
  namespace_fork_r :: int
  recvmsg_r :: "recv_result list"
  add_local_address_ok :: "nat \<Rightarrow> bool"
  writev_r :: "nat \<Rightarrow> int"
  wait_for_terminate_and_check_r :: int

datatype sys_call =
  Sys_local_addresses | Sys_in_same_namespace | Sys_namespace_open | Sys_socketpair |
  Sys_namespace_fork | Sys_recvmsg | Sys_wait_for_terminate

text \<open>
  What a call leaves behind: the returned integer, the contents of \<^verbatim>\<open>*ret_addresses\<close>
  and of \<^verbatim>\<open>*reterr_errno\<close> when they were written, and the calls made, in order
  (\<open>Sys_recvmsg\<close> stands for the whole receive loop).
\<close>

record addr_result =
  ret :: int
  ret_addresses :: "local_address list option"
  reterr_errno :: "int option"
  sys_calls :: "sys_call list"

text \<open>
  The function returns in the calling process, or, in the forked worker, ends the process
  with an exit status after writing records.
\<close>

datatype addr_outcome = Returned addr_result | Worker_exit int "byte list list"

definition addr_return :: "int \<Rightarrow> int option \<Rightarrow> sys_call list \<Rightarrow> addr_outcome" where
  "addr_return r e cs =
     Returned \<lparr>ret = r, ret_addresses = None, reterr_errno = e, sys_calls = cs\<rparr>"

definition machine_get_addresses :: "(int \<Rightarrow> nat) \<Rightarrow> addr_env \<Rightarrow> Machine \<Rightarrow> addr_outcome" where
  "machine_get_addresses other env machine =
     (case machine_class machine of
        MACHINE_HOST \<Rightarrow>
          (case local_addresses_r env of
             (n, addresses) \<Rightarrow>
               if n < 0 then addr_return n None [Sys_local_addresses]
               else
                 Returned \<lparr>ret = n, ret_addresses = Some addresses,
                           reterr_errno = None, sys_calls = [Sys_local_addresses]\<rparr>)
      | MACHINE_CONTAINER \<Rightarrow>
          (let r = in_same_namespace_r env (pid (leader machine)) in
           if r < 0 then addr_return r None [Sys_in_same_namespace]
           else if r > 0 then addr_return (- ENONET) (Some r) [Sys_in_same_namespace]
           else
             let r = pidref_namespace_open_r env in
             if r < 0 then addr_return r None [Sys_in_same_namespace, Sys_namespace_open]
             else if socketpair_r env < 0
             then addr_return (- errno_v env) None
                    [Sys_in_same_namespace, Sys_namespace_open, Sys_socketpair]
             else
               let r = namespace_fork_r env;
                   cs = [Sys_in_same_namespace, Sys_namespace_open, Sys_socketpair,
                         Sys_namespace_fork]
               in
               if r < 0 then addr_return (- ENOEXEC) (Some r) cs
               else if r = 0 then
                 (case local_addresses_r env of
                    (n, addresses) \<Rightarrow>
                      if n < 0 then Worker_exit EXIT_FAILURE []
                      else
                        (case worker_loop (FAMILY_ADDRESS_SIZE other) (writev_r env) 0
                                (take (nat n) addresses) [] of
                           (status, sent) \<Rightarrow> Worker_exit status sent))
               else
                 (case receive_loop (FAMILY_ADDRESS_SIZE other) (add_local_address_ok env)
                         (recvmsg_r env) [] of
                    Inl n \<Rightarrow> addr_return n None (cs @ [Sys_recvmsg])
                  | Inr list \<Rightarrow>
                      let r = wait_for_terminate_and_check_r env;
                          cs = cs @ [Sys_recvmsg, Sys_wait_for_terminate]
                      in
                      if r < 0 then addr_return (- ECHILD) (Some r) cs
                      else if r \<noteq> EXIT_SUCCESS then addr_return (- ESHUTDOWN) None cs
                      else
                        Returned \<lparr>ret = sint (word_of_nat (length list) :: 32 word),
                                  ret_addresses = Some list, reterr_errno = None,
                                  sys_calls = cs\<rparr>))
      | _ \<Rightarrow> addr_return (- ENOTSUP) None [])"

section \<open>Notions used in the statements\<close>

text \<open>The indices of the registry hold live pointers only.\<close>

definition registry_ok :: "Manager \<Rightarrow> bool" where
  "registry_ok m =
     list_all (\<lambda>p. heap m p \<noteq> None)
       (hashmap_values (machines m) @ hashmap_values (machines_by_leader m) @
        hashmap_values (machines_by_unit m))"

text \<open>The GC queue holds live pointers, each once.\<close>

definition gc_queue_ok :: "Manager \<Rightarrow> bool" where
  "gc_queue_ok m =
     (distinct (machine_gc_queue m) \<and> list_all (\<lambda>p. heap m p \<noteq> None) (machine_gc_queue m))"

text \<open>
  The Machine as the second may-collect evaluation of the GC pass sees it: the queue flag
  cleared, and stopped if the first evaluation held and the Machine was not Closing.
\<close>

definition after_stop_attempt :: "stop_effect \<Rightarrow> bool \<Rightarrow> Machine \<Rightarrow> Machine" where
  "after_stop_attempt stop drop_not_started mc =
     (if machine_may_gc (mc\<lparr>in_gc_queue := False\<rparr>) drop_not_started \<and>
         machine_get_state (mc\<lparr>in_gc_queue := False\<rparr>) \<noteq> MACHINE_CLOSING
      then machine_stop stop (mc\<lparr>in_gc_queue := False\<rparr>)
      else mc\<lparr>in_gc_queue := False\<rparr>)"

fun call_target :: "gc_call \<Rightarrow> machine_ptr" where
  "call_target (Call_stop p) = p"
| "call_target (Call_finalize p) = p"
| "call_target (Call_free p) = p"

text \<open>The calls about the Machine \<open>p\<close> in a record of calls.\<close>

definition calls_for :: "machine_ptr \<Rightarrow> gc_call list \<Rightarrow> gc_call list" where
  "calls_for p tr = filter (\<lambda>c. call_target c = p) tr"

text \<open>The keys under which the Machine \<open>p\<close> is registered in the three indices.\<close>

definition keys_of :: "machine_ptr \<Rightarrow> ('k, machine_ptr) hashmap \<Rightarrow> 'k list" where
  "keys_of p h = map fst (filter (\<lambda>e. snd e = p) h)"

definition registered_as :: "machine_ptr \<Rightarrow> Manager \<Rightarrow> string list \<times> PidRef list \<times> string list" where
  "registered_as p m =
     (keys_of p (machines m), keys_of p (machines_by_leader m), keys_of p (machines_by_unit m))"

text \<open>
  A received record is well formed for an address of the result list: its length is the
  tag size plus the address length of the family, and the address was decoded from it.
\<close>

definition well_formed_record :: "(int \<Rightarrow> nat) \<Rightarrow> recv_result \<Rightarrow> local_address \<Rightarrow> bool" where
  "well_formed_record fas rcv a =
     (0 \<le> recv_n rcv \<and> nat (recv_n rcv) = sizeof_family + fas (family a) \<and>
      family a = family_of (recv_data rcv) \<and> address a = in_addr_of (recv_data rcv))"

text \<open>
  A received record that the loop accepts: at least the tag was received, and the length
  is the tag size plus the address length of the family in the tag.
\<close>

definition good_record :: "(int \<Rightarrow> nat) \<Rightarrow> recv_result \<Rightarrow> bool" where
  "good_record fas rcv =
     (0 \<le> recv_n rcv \<and>
      nat (recv_n rcv) = sizeof_family + fas (family_of (recv_data rcv)))"

text \<open>The address that the loop appends for an accepted record.\<close>

definition decode_record :: "recv_result \<Rightarrow> local_address" where
  "decode_record rcv =
     \<lparr>ifindex = 0, scope = 0, family = family_of (recv_data rcv),
      address = in_addr_of (recv_data rcv)\<rparr>"

text \<open>
  A receive is consistent when the bytes stored are as many as the returned count says
  (a failed receive stores nothing that is read).
\<close>

definition consistent_receive :: "recv_result \<Rightarrow> bool" where
  "consistent_receive rcv = (0 \<le> recv_n rcv \<longrightarrow> length (recv_data rcv) = nat (recv_n rcv))"

text \<open>
  The calls the GC pass makes about the popped Machine \<open>p\<close> with object \<open>mc\<close>: the stop
  if the first may-collect evaluation holds and the Machine is not Closing, then the
  finalize and the free if the second evaluation holds.
\<close>

definition pass_calls :: "stop_effect \<Rightarrow> bool \<Rightarrow> machine_ptr \<Rightarrow> Machine \<Rightarrow> gc_call list" where
  "pass_calls stop d p mc =
     (if machine_may_gc (mc\<lparr>in_gc_queue := False\<rparr>) d \<and>
         machine_get_state (mc\<lparr>in_gc_queue := False\<rparr>) \<noteq> MACHINE_CLOSING
      then [Call_stop p] else []) @
     (if machine_may_gc (after_stop_attempt stop d mc) d
      then [Call_finalize p, Call_free p] else [])"

section \<open>Example states\<close>

definition example_machine :: "string \<Rightarrow> MachineState \<Rightarrow> uid_t \<Rightarrow> Machine" where
  "example_machine n s shift =
     \<lparr>name = n, machine_class = MACHINE_CONTAINER, leader = \<lparr>pid = 100\<rparr>, unit_name = None,
      state = s, in_gc_queue = True, external_refs = 0,
      uid_shift = shift, uid_range = 65536, gid_shift = shift, gid_range = 65536\<rparr>"

text \<open>
  Two registered machines, both queued for collection: \<open>a\<close> is Opening, \<open>b\<close> is Running.
\<close>

definition example_manager :: Manager where
  "example_manager =
     \<lparr>machines = [(''a'', 1), (''b'', 2)],
      machines_by_leader = [(\<lparr>pid = 100\<rparr>, 1)],
      machines_by_unit = [(''b.scope'', 2)],
      machine_gc_queue = [1, 2],
      deferred_gc_event_source = None,
      heap = [1 \<mapsto> example_machine ''a'' MACHINE_OPENING 65536,
              2 \<mapsto> example_machine ''b'' MACHINE_RUNNING 131072],
      gc_trace = []\<rparr>"

text \<open>A stop that leaves the machine Closing and takes a reference on \<open>b\<close> only.\<close>

definition example_stop :: stop_effect where
  "example_stop mc = (MACHINE_CLOSING, if name mc = ''b'' then 1 else 0)"

definition example_cg_fails :: "pid_t \<Rightarrow> int \<times> string" where
  "example_cg_fails p = (- 3, [])"

definition example_cg_unit :: "pid_t \<Rightarrow> int \<times> string" where
  "example_cg_unit p = (0, ''b.scope'')"

definition example_no_failure :: "Machine \<Rightarrow> int option" where
  "example_no_failure mc = None"

definition example_failure_b :: "Machine \<Rightarrow> int option" where
  "example_failure_b mc = (if name mc = ''b'' then Some (- 5) else None)"

text \<open>Handlers of other files are of no concern here.\<close>

definition example_elsewhere :: "string \<Rightarrow> stop_effect \<Rightarrow> Manager \<Rightarrow> (int \<times> Manager) option" where
  "example_elsewhere f stop m = None"

definition example_sd_event :: sd_event_results where
  "example_sd_event =
     \<lparr>set_enabled_r = 0, add_defer_r = 0, set_priority_r = 0, set_description_r = 0\<rparr>"

definition example_other :: "int \<Rightarrow> nat" where
  "example_other f = 0"

definition example_alloc :: "nat \<Rightarrow> bool" where
  "example_alloc n = True"

definition example_same_ns :: "int \<Rightarrow> pid_t \<Rightarrow> int" where
  "example_same_ns r p = r"

definition example_writev :: "nat \<Rightarrow> int" where
  "example_writev i = 8"

text \<open>
  An environment in which every call before the receive loop succeeds; the parameters are
  the answer of \<^verbatim>\<open>in_same_namespace\<close>, the receives and the result of the wait.
\<close>

definition example_env :: "int \<Rightarrow> recv_result list \<Rightarrow> int \<Rightarrow> addr_env" where
  "example_env same rcvs wait =
     \<lparr>local_addresses_r = (0, []), in_same_namespace_r = example_same_ns same,
      pidref_namespace_open_r = 0, socketpair_r = 0, errno_v = 0, namespace_fork_r = 4711,
      recvmsg_r = rcvs, add_local_address_ok = example_alloc, writev_r = example_writev,
      wait_for_terminate_and_check_r = wait\<rparr>"

text \<open>
  Records on the channel: the address 10.0.0.5 of family \<^verbatim>\<open>AF_INET\<close>, the same record cut
  after two address bytes, a record cut inside the family tag, and the end of the stream.
\<close>

definition record_inet :: recv_result where
  "record_inet = \<lparr>recv_n = 8, recv_data = [2, 0, 0, 0, 10, 0, 0, 5]\<rparr>"

definition record_cut_address :: recv_result where
  "record_cut_address = \<lparr>recv_n = 6, recv_data = [2, 0, 0, 0, 10, 0]\<rparr>"

definition record_cut_tag :: recv_result where
  "record_cut_tag = \<lparr>recv_n = 2, recv_data = [2, 0]\<rparr>"

definition record_eof :: recv_result where
  "record_eof = \<lparr>recv_n = 0, recv_data = []\<rparr>"

section \<open>Properties\<close>

lemmas errno_defs =
  EIO_def ENOEXEC_def ECHILD_def ENOMEM_def ENONET_def ENOTSUP_def ESHUTDOWN_def

lemmas example_defs =
  example_machine_def example_manager_def example_stop_def example_cg_fails_def
  example_cg_unit_def example_no_failure_def example_failure_b_def example_sd_event_def
  example_other_def example_alloc_def example_same_ns_def example_writev_def example_env_def
  record_inet_def record_cut_address_def record_cut_tag_def record_eof_def

subsection \<open>Lookup by PID\<close>

text \<open>
  Claim C7. For every valid PID, the lookup consults the leader index first: a hit there is
  the result, whatever the unit derivation would yield. Only on a miss is the unit name
  derived and the unit index consulted. When the derivation fails, the failure is
  swallowed and the call succeeds with an absent result; when neither index resolves the
  result is not-found. The returned integer is 0 (absent) or 1 (found), never negative.
\<close>

theorem manager_get_machine_by_pid_lookup:
  assumes valid: "pid_is_valid p"
  shows
    "(\<forall>x. hashmap_get (machines_by_leader m) (PIDREF_MAKE_FROM_PID p) = Some x \<longrightarrow>
        manager_get_machine_by_pid cg m p = Some (1, Some x)) \<and>
     (hashmap_get (machines_by_leader m) (PIDREF_MAKE_FROM_PID p) = None \<longrightarrow>
        (fst (cg p) < 0 \<longrightarrow> manager_get_machine_by_pid cg m p = Some (0, None)) \<and>
        (fst (cg p) \<ge> 0 \<longrightarrow>
           manager_get_machine_by_pid cg m p =
             Some (case hashmap_get (machines_by_unit m) (snd (cg p)) of
                     None \<Rightarrow> (0, None)
                   | Some x \<Rightarrow> (1, Some x)))) \<and>
     (\<exists>r x. manager_get_machine_by_pid cg m p = Some (r, x) \<and>
            (r = 0 \<and> x = None \<or> r = 1 \<and> x \<noteq> None))"
  using valid
  by (auto simp: manager_get_machine_by_pid_def Let_def split: option.splits prod.splits)

theorem manager_get_machine_by_pid_lookup_witness:
  "pid_is_valid 100 \<and> pid_is_valid 7 \<and>
   manager_get_machine_by_pid example_cg_fails example_manager 100 = Some (1, Some 1) \<and>
   manager_get_machine_by_pid example_cg_fails example_manager 7 = Some (0, None) \<and>
   manager_get_machine_by_pid example_cg_unit example_manager 7 = Some (1, Some 2)"
proof -
  have v1: "pid_is_valid 100" and v2: "pid_is_valid 7"
    by (simp_all add: pid_is_valid_def)
  show ?thesis
    using v1 v2
      manager_get_machine_by_pid_lookup [OF v1, of example_manager example_cg_fails]
      manager_get_machine_by_pid_lookup [OF v2, of example_manager example_cg_fails]
      manager_get_machine_by_pid_lookup [OF v2, of example_manager example_cg_unit]
    by (simp add: example_defs hashmap_get_def PIDREF_MAKE_FROM_PID_def)
qed

subsection \<open>Facts about hash maps\<close>

lemma hashmap_remove_value_absent:
  "v \<notin> set (hashmap_values h) \<Longrightarrow> hashmap_remove_value h v = h"
  by (induction h) (auto simp: hashmap_remove_value_def hashmap_values_def)

lemma hashmap_remove_value_put:
  "v \<notin> set (hashmap_values h) \<Longrightarrow> hashmap_get h k = None \<Longrightarrow>
   hashmap_remove_value (hashmap_put h k v) v = h"
  using hashmap_remove_value_absent [of v h]
  by (simp add: hashmap_put_def hashmap_get_def hashmap_remove_value_def)

lemma hashmap_get_put:
  "hashmap_get h k = None \<Longrightarrow> hashmap_get (hashmap_put h k v) k = Some v"
  by (simp add: hashmap_get_def hashmap_put_def map_add_def [symmetric] map_add_Some_iff)

lemma key_count_put:
  assumes "hashmap_get h k = None"
  shows "length (filter (\<lambda>e. fst e = k) (hashmap_put h k v)) = 1"
proof -
  from assms have "\<forall>e \<in> set h. fst e \<noteq> k"
    by (auto simp: hashmap_get_def map_of_eq_None_iff)
  then have "filter (\<lambda>e. fst e = k) h = []"
    by (simp add: filter_empty_conv)
  with assms show ?thesis
    by (simp add: hashmap_get_def hashmap_put_def)
qed

lemma key_count_present:
  "distinct (map fst h) \<Longrightarrow> hashmap_get h k = Some v \<Longrightarrow>
   length (filter (\<lambda>e. fst e = k) h) = 1"
proof (induction h)
  case Nil
  then show ?case by (simp add: hashmap_get_def)
next
  case (Cons e h)
  show ?case
  proof (cases "fst e = k")
    case True
    with Cons.prems have "k \<notin> fst ` set h" by simp
    then have "\<forall>x \<in> set h. fst x \<noteq> k" by blast
    then have "filter (\<lambda>e. fst e = k) h = []" by (simp add: filter_empty_conv)
    with True show ?thesis by simp
  next
    case False
    with Cons show ?thesis by (cases e) (auto simp: hashmap_get_def)
  qed
qed

lemma keys_of_remove_other:
  "q \<noteq> p \<Longrightarrow> keys_of p (hashmap_remove_value h q) = keys_of p h"
  by (induction h) (auto simp: keys_of_def hashmap_remove_value_def)

lemma keys_of_remove_self: "keys_of p (hashmap_remove_value h p) = []"
  by (induction h) (auto simp: keys_of_def hashmap_remove_value_def)

lemma registry_ok_fresh:
  assumes "registry_ok m" and "heap m p = None"
  shows "p \<notin> set (hashmap_values (machines m))"
    and "p \<notin> set (hashmap_values (machines_by_leader m))"
    and "p \<notin> set (hashmap_values (machines_by_unit m))"
proof -
  from assms(1) have "\<forall>q \<in> set (hashmap_values (machines m)) \<union>
      set (hashmap_values (machines_by_leader m)) \<union>
      set (hashmap_values (machines_by_unit m)). heap m q \<noteq> None"
    by (simp add: registry_ok_def list_all_iff)
  with assms(2) show "p \<notin> set (hashmap_values (machines m))"
    and "p \<notin> set (hashmap_values (machines_by_leader m))"
    and "p \<notin> set (hashmap_values (machines_by_unit m))"
    by blast+
qed

subsection \<open>Registering a machine\<close>

lemma add_machine_existing:
  "hashmap_get (machines m) n = Some machine \<Longrightarrow>
   manager_add_machine new_r new_p link_r written m n = (0, Some machine, m)"
  by (simp add: manager_add_machine_def)

lemma add_machine_success_registered:
  assumes "manager_add_machine new_r new_p link_r written m n = (0, Some machine, m')"
  shows "hashmap_get (machines m') n = Some machine"
proof (cases "hashmap_get (machines m) n")
  case (Some x)
  with assms show ?thesis by (simp add: manager_add_machine_def)
next
  case None
  with assms show ?thesis
    by (auto simp: manager_add_machine_def machine_new_def machine_link_def
        link_name_index_def hashmap_get_put split: if_splits)
qed

lemma add_machine_success_count:
  assumes "manager_add_machine new_r new_p link_r written m n = (0, Some machine, m')"
    and "distinct (map fst (machines m))"
  shows "length (filter (\<lambda>e. fst e = n) (machines m')) = 1"
proof (cases "hashmap_get (machines m) n")
  case (Some x)
  with assms show ?thesis by (simp add: manager_add_machine_def key_count_present)
next
  case None
  with assms show ?thesis
    by (auto simp: manager_add_machine_def machine_new_def machine_link_def
        link_name_index_def key_count_put split: if_splits)
qed

text \<open>
  Claim C5. \<^verbatim>\<open>manager_add_machine\<close> is idempotent. For a name already in the registry it
  returns the existing Machine and leaves the manager as it was, whatever the outcomes of
  allocation and linking would be. Whenever a call succeeds with a Machine, a second call
  with the same name returns that same Machine and changes nothing, and the name index
  (which had one entry per key) holds exactly one entry for the name.
\<close>

theorem manager_add_machine_idempotent:
  assumes "distinct (map fst (machines m))"
  shows
    "(\<forall>machine. hashmap_get (machines m) n = Some machine \<longrightarrow>
        manager_add_machine new_r new_p link_r written m n = (0, Some machine, m)) \<and>
     (\<forall>machine m'.
        manager_add_machine new_r new_p link_r written m n = (0, Some machine, m') \<longrightarrow>
          manager_add_machine new_r' new_p' link_r' written' m' n = (0, Some machine, m') \<and>
          length (filter (\<lambda>e. fst e = n) (machines m')) = 1)"
proof (intro conjI allI impI)
  fix machine
  assume "hashmap_get (machines m) n = Some machine"
  then show "manager_add_machine new_r new_p link_r written m n = (0, Some machine, m)"
    by (rule add_machine_existing)
next
  fix machine m'
  assume a: "manager_add_machine new_r new_p link_r written m n = (0, Some machine, m')"
  show "manager_add_machine new_r' new_p' link_r' written' m' n = (0, Some machine, m')"
    by (rule add_machine_existing [OF add_machine_success_registered [OF a]])
  show "length (filter (\<lambda>e. fst e = n) (machines m')) = 1"
    by (rule add_machine_success_count [OF a assms])
qed

theorem manager_add_machine_idempotent_witness:
  "distinct (map fst (machines example_manager)) \<and>
   hashmap_get (machines example_manager) ''a'' = Some 1 \<and>
   manager_add_machine 0 3 0 False example_manager ''a'' = (0, Some 1, example_manager) \<and>
   manager_add_machine (- 12) 4 (- 12) True example_manager ''a'' = (0, Some 1, example_manager) \<and>
   length (filter (\<lambda>e. fst e = ''a'') (machines example_manager)) = 1 \<and>
   (case manager_add_machine 0 3 0 False example_manager ''c'' of
      (r, machine, m') \<Rightarrow>
        r = 0 \<and> machine = Some 3 \<and>
        manager_add_machine 0 4 0 False m' ''c'' = (0, Some 3, m') \<and>
        length (filter (\<lambda>e. fst e = ''c'') (machines m')) = 1)"
proof -
  have d: "distinct (map fst (machines example_manager))"
    by (simp add: example_manager_def)
  have g: "hashmap_get (machines example_manager) ''a'' = Some 1"
    by (simp add: example_manager_def hashmap_get_def)
  define m' where "m' = snd (snd (manager_add_machine 0 3 0 False example_manager ''c''))"
  have c: "manager_add_machine 0 3 0 False example_manager ''c'' = (0, Some 3, m')"
    unfolding m'_def
    by (simp add: manager_add_machine_def machine_new_def machine_link_def hashmap_get_def
        example_manager_def)
  from manager_add_machine_idempotent [OF d, of "''c''" 0 3 0 False 0 4 0 False] c
  have new: "manager_add_machine 0 4 0 False m' ''c'' = (0, Some 3, m') \<and>
      length (filter (\<lambda>e. fst e = ''c'') (machines m')) = 1"
    by blast
  from manager_add_machine_idempotent [OF d, of "''a''" 0 3 0 False "- 12" 4 "- 12" True] g
  have old: "manager_add_machine 0 3 0 False example_manager ''a'' = (0, Some 1, example_manager) \<and>
      manager_add_machine (- 12) 4 (- 12) True example_manager ''a'' = (0, Some 1, example_manager) \<and>
      length (filter (\<lambda>e. fst e = ''a'') (machines example_manager)) = 1"
    by blast
  from d g old new show ?thesis
    by (simp add: c)
qed

text \<open>
  Claim C6. \<^verbatim>\<open>manager_add_machine\<close> is atomic on failure. For a name not yet registered,
  in a registry whose indices hold live pointers and with the new object at an unused
  address: if constructing the Machine fails, or if linking it fails (whether or not the
  name index had been written by then), the call returns that error, stores no Machine,
  and the manager, its indices and its store of Machines, is exactly as before the call.
\<close>

theorem manager_add_machine_atomic:
  assumes "hashmap_get (machines m) n = None" and "registry_ok m" and "heap m new_p = None"
  shows
    "(new_r < 0 \<longrightarrow> manager_add_machine new_r new_p link_r written m n = (new_r, None, m)) \<and>
     (0 \<le> new_r \<and> link_r < 0 \<longrightarrow>
        manager_add_machine new_r new_p link_r written m n = (link_r, None, m)) \<and>
     (\<forall>r ret m'. manager_add_machine new_r new_p link_r written m n = (r, ret, m') \<and> r < 0 \<longrightarrow>
        ret = None \<and> m' = m)"
proof -
  have free_plain: "machine_free (m\<lparr>heap := (heap m)(new_p \<mapsto> mc)\<rparr>) new_p = m" for mc
    using registry_ok_fresh [OF assms(2,3)] assms(3)
    by (simp add: machine_free_def hashmap_remove_value_absent fun_upd_idem)
  have free_linked:
    "machine_free (link_name_index (m\<lparr>heap := (heap m)(new_p \<mapsto> mc)\<rparr>) new_p) new_p = m"
    if "name mc = n" for mc
    using registry_ok_fresh [OF assms(2,3)] assms(1,3) that
    by (simp add: machine_free_def link_name_index_def hashmap_remove_value_absent
        hashmap_remove_value_put fun_upd_idem)
  show ?thesis
    using assms(1)
    by (auto simp: manager_add_machine_def machine_new_def machine_link_def
        free_plain free_linked split: if_splits)
qed

theorem manager_add_machine_atomic_witness:
  "hashmap_get (machines example_manager) ''c'' = None \<and> registry_ok example_manager \<and>
   heap example_manager 3 = None \<and>
   manager_add_machine (- 12) 3 0 False example_manager ''c'' = (- 12, None, example_manager) \<and>
   manager_add_machine 0 3 (- 12) False example_manager ''c'' = (- 12, None, example_manager) \<and>
   manager_add_machine 0 3 (- 12) True example_manager ''c'' = (- 12, None, example_manager)"
proof -
  have a: "hashmap_get (machines example_manager) ''c'' = None"
    by (simp add: example_manager_def hashmap_get_def)
  have b: "registry_ok example_manager"
    by (simp add: example_manager_def registry_ok_def hashmap_values_def)
  have c: "heap example_manager 3 = None"
    by (simp add: example_manager_def)
  show ?thesis
    using a b c
      manager_add_machine_atomic [OF a b c, of "- 12" 0 False]
      manager_add_machine_atomic [OF a b c, of 0 "- 12" False]
      manager_add_machine_atomic [OF a b c, of 0 "- 12" True]
    by simp
qed

subsection \<open>Lookup by host UID and GID\<close>

lemma find_machine_loop_skip:
  assumes "\<forall>q \<in> set pre. \<exists>mc. h q = Some mc \<and> fst (owns mc u) = 0"
  shows "find_machine_loop owns sentinel h (pre @ rest) u = find_machine_loop owns sentinel h rest u"
  using assms
proof (induction pre)
  case Nil
  then show ?case by simp
next
  case (Cons q pre)
  then obtain mc where "h q = Some mc" and "fst (owns mc u) = 0" by auto
  with Cons show ?case by (simp add: split_beta)
qed

lemma find_uid_skip:
  assumes "uid_is_valid u" and "hashmap_values (machines m) = pre @ rest"
    and "\<forall>q \<in> set pre. \<exists>mc. heap m q = Some mc \<and> failure mc = None \<and>
           \<not> id_in_range (uid_shift mc) (uid_range mc) u"
  shows "manager_find_machine_for_uid failure m u =
           find_machine_loop (machine_owns_uid failure) UID_INVALID (heap m) rest u"
proof -
  have "fst (machine_owns_uid failure mc u) = 0"
    if "failure mc = None" and "\<not> id_in_range (uid_shift mc) (uid_range mc) u" for mc
    using that by (simp add: machine_owns_uid_def)
  with assms(3) have "\<forall>q \<in> set pre. \<exists>mc. heap m q = Some mc \<and>
      fst (machine_owns_uid failure mc u) = 0"
    by blast
  then show ?thesis
    using assms(1,2) by (simp add: manager_find_machine_for_uid_def find_machine_loop_skip)
qed

lemma find_gid_skip:
  assumes "gid_is_valid g" and "hashmap_values (machines m) = pre @ rest"
    and "\<forall>q \<in> set pre. \<exists>mc. heap m q = Some mc \<and> failure mc = None \<and>
           \<not> id_in_range (gid_shift mc) (gid_range mc) g"
  shows "manager_find_machine_for_gid failure m g =
           find_machine_loop (machine_owns_gid failure) GID_INVALID (heap m) rest g"
proof -
  have "fst (machine_owns_gid failure mc g) = 0"
    if "failure mc = None" and "\<not> id_in_range (gid_shift mc) (gid_range mc) g" for mc
    using that by (simp add: machine_owns_gid_def)
  with assms(3) have "\<forall>q \<in> set pre. \<exists>mc. heap m q = Some mc \<and>
      fst (machine_owns_gid failure mc g) = 0"
    by blast
  then show ?thesis
    using assms(1,2) by (simp add: manager_find_machine_for_gid_def find_machine_loop_skip)
qed

text \<open>
  Claim C8. For every valid host UID, let the machines visited before some point of the
  scan (\<open>pre\<close>) be live, translate without failure and not contain the UID in their range.
  If the next machine's range contains the UID, the lookup returns true with that machine
  and the UID minus the machine's shift. If no machine is left, the lookup returns false
  with a NULL machine and the invalid-UID sentinel, not an error. If the translation fails
  for the next machine, the scan stops there and the negative code is returned, whatever
  machines follow.
\<close>

theorem manager_find_machine_for_uid_scan:
  assumes "uid_is_valid u" and "hashmap_values (machines m) = pre @ rest"
    and "\<forall>q \<in> set pre. \<exists>mc. heap m q = Some mc \<and> failure mc = None \<and>
           \<not> id_in_range (uid_shift mc) (uid_range mc) u"
  shows
    "(\<forall>machine mc post. rest = machine # post \<and> heap m machine = Some mc \<and>
        failure mc = None \<and> id_in_range (uid_shift mc) (uid_range mc) u \<longrightarrow>
        manager_find_machine_for_uid failure m u =
          Some (Find_return True (Some machine) (u - uid_shift mc))) \<and>
     (rest = [] \<longrightarrow>
        manager_find_machine_for_uid failure m u = Some (Find_return False None UID_INVALID)) \<and>
     (\<forall>machine mc post r. rest = machine # post \<and> heap m machine = Some mc \<and>
        failure mc = Some r \<and> r < 0 \<longrightarrow>
        manager_find_machine_for_uid failure m u = Some (Find_error r))"
  by (simp add: find_uid_skip [OF assms] machine_owns_uid_def)

theorem manager_find_machine_for_uid_scan_witness:
  "uid_is_valid 131073 \<and> uid_is_valid 7 \<and>
   manager_find_machine_for_uid example_no_failure example_manager 131073 =
     Some (Find_return True (Some 2) 1) \<and>
   manager_find_machine_for_uid example_no_failure example_manager 7 =
     Some (Find_return False None UID_INVALID) \<and>
   manager_find_machine_for_uid example_failure_b example_manager 131073 =
     Some (Find_error (- 5))"
proof -
  have v: "uid_is_valid 131073" "uid_is_valid 7"
    by (simp_all add: uid_is_valid_def UID_INVALID_def)
  have l1: "hashmap_values (machines example_manager) = [1] @ [2]"
    and l2: "hashmap_values (machines example_manager) = [1, 2] @ []"
    by (simp_all add: example_manager_def hashmap_values_def)
  have m1: "\<forall>q \<in> set [1]. \<exists>mc. heap example_manager q = Some mc \<and> example_no_failure mc = None \<and>
      \<not> id_in_range (uid_shift mc) (uid_range mc) 131073"
    and m2: "\<forall>q \<in> set [1, 2]. \<exists>mc. heap example_manager q = Some mc \<and>
      example_no_failure mc = None \<and> \<not> id_in_range (uid_shift mc) (uid_range mc) 7"
    and m3: "\<forall>q \<in> set [1]. \<exists>mc. heap example_manager q = Some mc \<and> example_failure_b mc = None \<and>
      \<not> id_in_range (uid_shift mc) (uid_range mc) 131073"
    by (simp_all add: example_defs id_in_range_def)
  have h2: "heap example_manager 2 = Some (example_machine ''b'' MACHINE_RUNNING 131072)"
    by (simp add: example_manager_def)
  have r2: "id_in_range (uid_shift (example_machine ''b'' MACHINE_RUNNING 131072))
      (uid_range (example_machine ''b'' MACHINE_RUNNING 131072)) 131073"
    by (simp add: example_machine_def id_in_range_def)
  have nf: "example_no_failure (example_machine ''b'' MACHINE_RUNNING 131072) = None"
    by (simp add: example_no_failure_def)
  have fb: "example_failure_b (example_machine ''b'' MACHINE_RUNNING 131072) = Some (- 5)"
    by (simp add: example_failure_b_def example_machine_def)
  have sh: "131073 - uid_shift (example_machine ''b'' MACHINE_RUNNING 131072) = 1"
    by (simp add: example_machine_def)
  from manager_find_machine_for_uid_scan [OF v(1) l1 m1] h2 r2 nf
  have "manager_find_machine_for_uid example_no_failure example_manager 131073 =
      Some (Find_return True (Some 2)
        (131073 - uid_shift (example_machine ''b'' MACHINE_RUNNING 131072)))"
    by blast
  moreover from manager_find_machine_for_uid_scan [OF v(2) l2 m2]
  have "manager_find_machine_for_uid example_no_failure example_manager 7 =
      Some (Find_return False None UID_INVALID)"
    by blast
  moreover from manager_find_machine_for_uid_scan [OF v(1) l1 m3] h2 fb
  have "manager_find_machine_for_uid example_failure_b example_manager 131073 =
      Some (Find_error (- 5))"
    by force
  ultimately show ?thesis
    using v by (simp only: sh simp_thms)
qed

text \<open>The same holds of the lookup by host GID, with the GID range and shift.\<close>

lemma manager_find_machine_for_gid_scan:
  assumes "gid_is_valid g" and "hashmap_values (machines m) = pre @ rest"
    and "\<forall>q \<in> set pre. \<exists>mc. heap m q = Some mc \<and> failure mc = None \<and>
           \<not> id_in_range (gid_shift mc) (gid_range mc) g"
  shows
    "(\<forall>machine mc post. rest = machine # post \<and> heap m machine = Some mc \<and>
        failure mc = None \<and> id_in_range (gid_shift mc) (gid_range mc) g \<longrightarrow>
        manager_find_machine_for_gid failure m g =
          Some (Find_return True (Some machine) (g - gid_shift mc))) \<and>
     (rest = [] \<longrightarrow>
        manager_find_machine_for_gid failure m g = Some (Find_return False None GID_INVALID)) \<and>
     (\<forall>machine mc post r. rest = machine # post \<and> heap m machine = Some mc \<and>
        failure mc = Some r \<and> r < 0 \<longrightarrow>
        manager_find_machine_for_gid failure m g = Some (Find_error r))"
  by (simp add: find_gid_skip [OF assms] machine_owns_gid_def)

subsection \<open>Address resolution: the receive loop\<close>

lemma receive_loop_short:
  "0 \<le> recv_n rcv \<Longrightarrow> nat (recv_n rcv) < sizeof_family \<Longrightarrow>
   receive_loop fas ok (rcv # rest) list = Inr list"
  by (simp add: Let_def)

lemma receive_loop_bad_length:
  "sizeof_family \<le> nat (recv_n rcv) \<Longrightarrow>
   nat (recv_n rcv) \<noteq> sizeof_family + fas (family_of (recv_data rcv)) \<Longrightarrow>
   receive_loop fas ok (rcv # rest) list = Inl (- EIO)"
  by (auto simp: Let_def sizeof_family_def)

lemma receive_loop_complete:
  "receive_loop fas ok rcvs list = Inr list' \<Longrightarrow> a \<in> set list' \<Longrightarrow>
   a \<in> set list \<or> (\<exists>rcv \<in> set rcvs. well_formed_record fas rcv a)"
proof (induction rcvs arbitrary: list)
  case Nil
  then show ?case by simp
next
  case (Cons rcv rcvs)
  show ?case
  proof (cases "recv_n rcv < 0 \<or> nat (recv_n rcv) < sizeof_family \<or>
      nat (recv_n rcv) \<noteq> sizeof_family + fas (family_of (recv_data rcv)) \<or>
      \<not> ok (length list)")
    case True
    with Cons.prems show ?thesis
      by (auto simp: Let_def add_local_address_def errno_defs split: if_splits)
  next
    case False
    let ?new = "\<lparr>ifindex = 0, scope = 0, family = family_of (recv_data rcv),
                  address = in_addr_of (recv_data rcv)\<rparr>"
    from False Cons.prems(1) have "receive_loop fas ok rcvs (list @ [?new]) = Inr list'"
      by (simp add: Let_def add_local_address_def)
    from Cons.IH [OF this Cons.prems(2)]
    have "a \<in> set list \<or> a = ?new \<or> (\<exists>rcv \<in> set rcvs. well_formed_record fas rcv a)"
      by auto
    moreover from False have "well_formed_record fas rcv ?new"
      by (simp add: well_formed_record_def)
    ultimately show ?thesis by auto
  qed
qed

lemma get_addresses_loop_error:
  assumes "machine_class machine = MACHINE_CONTAINER"
    and "in_same_namespace_r env (pid (leader machine)) = 0"
    and "0 \<le> pidref_namespace_open_r env" and "0 \<le> socketpair_r env"
    and "0 < namespace_fork_r env"
    and "receive_loop (FAMILY_ADDRESS_SIZE other) (add_local_address_ok env) (recvmsg_r env) []
           = Inl r"
  shows "machine_get_addresses other env machine =
           addr_return r None
             [Sys_in_same_namespace, Sys_namespace_open, Sys_socketpair, Sys_namespace_fork,
              Sys_recvmsg]"
  using assms by (simp add: machine_get_addresses_def Let_def)

lemma receive_loop_accept:
  "good_record fas rcv \<Longrightarrow> ok (length list) \<Longrightarrow>
   receive_loop fas ok (rcv # rest) list = receive_loop fas ok rest (list @ [decode_record rcv])"
  by (simp add: good_record_def decode_record_def Let_def add_local_address_def)

lemma receive_loop_chain:
  "\<forall>r \<in> set pre. good_record fas r \<Longrightarrow> \<forall>i < length pre. ok (length list + i) \<Longrightarrow>
   receive_loop fas ok (pre @ rest) list =
     receive_loop fas ok rest (list @ map decode_record pre)"
proof (induction pre arbitrary: list)
  case Nil
  then show ?case by simp
next
  case (Cons r pre)
  from Cons.prems have g: "good_record fas r" and a: "ok (length list)"
    by auto
  have shifted: "\<forall>i < length pre. ok (length (list @ [decode_record r]) + i)"
  proof (intro allI impI)
    fix i assume "i < length pre"
    then have "Suc i < length (r # pre)" by simp
    with Cons.prems(2) have "ok (length list + Suc i)" by blast
    then show "ok (length (list @ [decode_record r]) + i)" by simp
  qed
  from Cons.prems(1) have rest_good: "\<forall>r \<in> set pre. good_record fas r" by simp
  have "receive_loop fas ok (r # pre @ rest) list =
      receive_loop fas ok (pre @ rest) (list @ [decode_record r])"
    using g a by (rule receive_loop_accept)
  with Cons.IH [OF rest_good shifted] show ?case by simp
qed

lemma receive_loop_error:
  "recv_n rcv < 0 \<Longrightarrow> receive_loop fas ok (rcv # rest) list = Inl (recv_n rcv)"
  by (simp add: Let_def)

lemma receive_loop_nomem:
  "good_record fas rcv \<Longrightarrow> \<not> ok (length list) \<Longrightarrow>
   receive_loop fas ok (rcv # rest) list = Inl (- ENOMEM)"
  by (simp add: good_record_def Let_def add_local_address_def ENOMEM_def)

lemma decode_full_length:
  "good_record fas rcv \<Longrightarrow> consistent_receive rcv \<Longrightarrow>
   length (address (decode_record rcv)) = fas (family (decode_record rcv))"
  by (simp add: good_record_def consistent_receive_def decode_record_def in_addr_of_def)

lemma get_addresses_loop_end:
  assumes "machine_class machine = MACHINE_CONTAINER"
    and "in_same_namespace_r env (pid (leader machine)) = 0"
    and "0 \<le> pidref_namespace_open_r env" and "0 \<le> socketpair_r env"
    and "0 < namespace_fork_r env"
    and "receive_loop (FAMILY_ADDRESS_SIZE other) (add_local_address_ok env) (recvmsg_r env) []
           = Inr list"
    and "wait_for_terminate_and_check_r env = EXIT_SUCCESS"
  shows "machine_get_addresses other env machine =
           Returned \<lparr>ret = sint (word_of_nat (length list) :: 32 word),
                     ret_addresses = Some list, reterr_errno = None,
                     sys_calls = [Sys_in_same_namespace, Sys_namespace_open, Sys_socketpair,
                                  Sys_namespace_fork, Sys_recvmsg, Sys_wait_for_terminate]\<rparr>"
  using assms by (simp add: machine_get_addresses_def Let_def EXIT_SUCCESS_def)

lemma receive_loop_lengths:
  assumes "\<forall>r \<in> set rcvs. consistent_receive r"
    and "receive_loop fas ok rcvs list = Inr list'" and "a \<in> set list'"
  shows "a \<in> set list \<or> length (address a) = fas (family a)"
proof -
  from receive_loop_complete [OF assms(2,3)]
  consider "a \<in> set list" | r where "r \<in> set rcvs" and "well_formed_record fas r a"
    by blast
  then show ?thesis
  proof cases
    case 1
    then show ?thesis by simp
  next
    case 2
    with assms(1) have "consistent_receive r" by blast
    with 2(2) have "length (address a) = fas (family a)"
      by (simp add: well_formed_record_def consistent_receive_def in_addr_of_def)
    then show ?thesis by simp
  qed
qed

lemma receive_loop_after_accepted:
  assumes "\<forall>r \<in> set pre. good_record fas r" and "\<forall>i < length pre. ok (length list + i)"
  shows "receive_loop fas ok pre list = Inr (list @ map decode_record pre)"
    and "0 \<le> recv_n rcv \<and> nat (recv_n rcv) < sizeof_family \<Longrightarrow>
         receive_loop fas ok (pre @ rcv # rest) list = Inr (list @ map decode_record pre)"
    and "sizeof_family \<le> nat (recv_n rcv) \<and>
         nat (recv_n rcv) \<noteq> sizeof_family + fas (family_of (recv_data rcv)) \<Longrightarrow>
         receive_loop fas ok (pre @ rcv # rest) list = Inl (- EIO)"
    and "recv_n rcv < 0 \<Longrightarrow> receive_loop fas ok (pre @ rcv # rest) list = Inl (recv_n rcv)"
    and "good_record fas rcv \<and> ok (length list + length pre) \<Longrightarrow>
         receive_loop fas ok (pre @ rcv # rest) list =
           receive_loop fas ok rest (list @ map decode_record pre @ [decode_record rcv])"
    and "good_record fas rcv \<and> \<not> ok (length list + length pre) \<Longrightarrow>
         receive_loop fas ok (pre @ rcv # rest) list = Inl (- ENOMEM)"
proof -
  note chain = receive_loop_chain [OF assms]
  from chain [of "[]"] show "receive_loop fas ok pre list = Inr (list @ map decode_record pre)"
    by simp
  show "receive_loop fas ok (pre @ rcv # rest) list = Inr (list @ map decode_record pre)"
    if "0 \<le> recv_n rcv \<and> nat (recv_n rcv) < sizeof_family"
    unfolding chain using that receive_loop_short by blast
  show "receive_loop fas ok (pre @ rcv # rest) list = Inl (- EIO)"
    if "sizeof_family \<le> nat (recv_n rcv) \<and>
         nat (recv_n rcv) \<noteq> sizeof_family + fas (family_of (recv_data rcv))"
    unfolding chain using that receive_loop_bad_length by blast
  show "receive_loop fas ok (pre @ rcv # rest) list = Inl (recv_n rcv)" if "recv_n rcv < 0"
    unfolding chain using that receive_loop_error by blast
  show "receive_loop fas ok (pre @ rcv # rest) list =
           receive_loop fas ok rest (list @ map decode_record pre @ [decode_record rcv])"
    if "good_record fas rcv \<and> ok (length list + length pre)"
    unfolding chain using that receive_loop_accept [of fas rcv ok "list @ map decode_record pre" rest] by simp
  show "receive_loop fas ok (pre @ rcv # rest) list = Inl (- ENOMEM)"
    if "good_record fas rcv \<and> \<not> ok (length list + length pre)"
    unfolding chain using that receive_loop_nomem [of fas rcv ok "list @ map decode_record pre" rest] by simp
qed

text \<open>
  Claim C1, as the code has it. In the parent's receive loop, after any number of
  well-formed records, each decoded and appended in order: a receive shorter than the
  family tag (the zero-length receive of a closed channel included) ends the loop normally
  with the list gathered so far; a receive of at least the tag size whose length is not
  exactly the tag size plus the address length of its family (4 for IPv4, 16 for IPv6) is
  a framing error, the loop returns \<^verbatim>\<open>-EIO\<close> and the call returns it without a list; a
  failed receive returns its code; a well-formed record is appended and the loop goes on
  with the next receive. Every address of a list the loop ends with was in the list at the
  start or was decoded from a received record of exactly the length its family requires,
  and has exactly the address bytes of its family when the receives store as many bytes
  as they report: no partial address appears.
\<close>

theorem receive_loop_framing:
  "(0 \<le> recv_n rcv \<and> nat (recv_n rcv) < sizeof_family \<longrightarrow>
      receive_loop fas ok (rcv # rest) list = Inr list) \<and>
   (sizeof_family \<le> nat (recv_n rcv) \<and>
    nat (recv_n rcv) \<noteq> sizeof_family + fas (family_of (recv_data rcv)) \<longrightarrow>
      receive_loop fas ok (rcv # rest) list = Inl (- EIO)) \<and>
   (\<forall>list' a. receive_loop fas ok rcvs list = Inr list' \<and> a \<in> set list' \<longrightarrow>
      a \<in> set list \<or> (\<exists>r \<in> set rcvs. well_formed_record fas r a)) \<and>
   FAMILY_ADDRESS_SIZE other AF_INET = 4 \<and> FAMILY_ADDRESS_SIZE other AF_INET6 = 16 \<and>
   (machine_class machine = MACHINE_CONTAINER \<and>
    in_same_namespace_r env (pid (leader machine)) = 0 \<and>
    0 \<le> pidref_namespace_open_r env \<and> 0 \<le> socketpair_r env \<and> 0 < namespace_fork_r env \<and>
    receive_loop (FAMILY_ADDRESS_SIZE other) (add_local_address_ok env) (recvmsg_r env) []
      = Inl (- EIO) \<longrightarrow>
      machine_get_addresses other env machine =
        Returned \<lparr>ret = - EIO, ret_addresses = None, reterr_errno = None,
                  sys_calls = [Sys_in_same_namespace, Sys_namespace_open, Sys_socketpair,
                               Sys_namespace_fork, Sys_recvmsg]\<rparr>) \<and>
   ((\<forall>r \<in> set pre. good_record fas r) \<and> (\<forall>i < length pre. ok (length list + i)) \<longrightarrow>
      receive_loop fas ok pre list = Inr (list @ map decode_record pre) \<and>
      (0 \<le> recv_n rcv \<and> nat (recv_n rcv) < sizeof_family \<longrightarrow>
         receive_loop fas ok (pre @ rcv # rest) list = Inr (list @ map decode_record pre)) \<and>
      (sizeof_family \<le> nat (recv_n rcv) \<and>
       nat (recv_n rcv) \<noteq> sizeof_family + fas (family_of (recv_data rcv)) \<longrightarrow>
         receive_loop fas ok (pre @ rcv # rest) list = Inl (- EIO)) \<and>
      (recv_n rcv < 0 \<longrightarrow>
         receive_loop fas ok (pre @ rcv # rest) list = Inl (recv_n rcv)) \<and>
      (good_record fas rcv \<and> ok (length list + length pre) \<longrightarrow>
         receive_loop fas ok (pre @ rcv # rest) list =
           receive_loop fas ok rest (list @ map decode_record pre @ [decode_record rcv])) \<and>
      (good_record fas rcv \<and> \<not> ok (length list + length pre) \<longrightarrow>
         receive_loop fas ok (pre @ rcv # rest) list = Inl (- ENOMEM))) \<and>
   ((\<forall>r \<in> set rcvs. consistent_receive r) \<longrightarrow>
      (\<forall>list' a. receive_loop fas ok rcvs list = Inr list' \<and> a \<in> set list' \<longrightarrow>
         a \<in> set list \<or> length (address a) = fas (family a))) \<and>
   (machine_class machine = MACHINE_CONTAINER \<and>
    in_same_namespace_r env (pid (leader machine)) = 0 \<and>
    0 \<le> pidref_namespace_open_r env \<and> 0 \<le> socketpair_r env \<and> 0 < namespace_fork_r env \<and>
    recvmsg_r env = rs @ nxt # later \<and>
    (\<forall>r \<in> set rs. good_record (FAMILY_ADDRESS_SIZE other) r) \<and>
    (\<forall>i < length rs. add_local_address_ok env i) \<longrightarrow>
      (sizeof_family \<le> nat (recv_n nxt) \<and>
       nat (recv_n nxt) \<noteq> sizeof_family + FAMILY_ADDRESS_SIZE other (family_of (recv_data nxt)) \<longrightarrow>
         machine_get_addresses other env machine =
           Returned \<lparr>ret = - EIO, ret_addresses = None, reterr_errno = None,
                     sys_calls = [Sys_in_same_namespace, Sys_namespace_open, Sys_socketpair,
                                  Sys_namespace_fork, Sys_recvmsg]\<rparr>) \<and>
      (0 \<le> recv_n nxt \<and> nat (recv_n nxt) < sizeof_family \<and>
       wait_for_terminate_and_check_r env = EXIT_SUCCESS \<longrightarrow>
         machine_get_addresses other env machine =
           Returned \<lparr>ret = sint (word_of_nat (length rs) :: 32 word),
                     ret_addresses = Some (map decode_record rs), reterr_errno = None,
                     sys_calls = [Sys_in_same_namespace, Sys_namespace_open, Sys_socketpair,
                                  Sys_namespace_fork, Sys_recvmsg, Sys_wait_for_terminate]\<rparr>))"
proof (intro conjI impI allI)
  assume "0 \<le> recv_n rcv \<and> nat (recv_n rcv) < sizeof_family"
  then show "receive_loop fas ok (rcv # rest) list = Inr list"
    using receive_loop_short by blast
next
  assume "sizeof_family \<le> nat (recv_n rcv) \<and>
    nat (recv_n rcv) \<noteq> sizeof_family + fas (family_of (recv_data rcv))"
  then show "receive_loop fas ok (rcv # rest) list = Inl (- EIO)"
    using receive_loop_bad_length by blast
next
  fix list' a
  assume "receive_loop fas ok rcvs list = Inr list' \<and> a \<in> set list'"
  then show "a \<in> set list \<or> (\<exists>r \<in> set rcvs. well_formed_record fas r a)"
    using receive_loop_complete by blast
next
  show "FAMILY_ADDRESS_SIZE other AF_INET = 4" and "FAMILY_ADDRESS_SIZE other AF_INET6 = 16"
    by (simp_all add: FAMILY_ADDRESS_SIZE_def AF_INET_def AF_INET6_def)
next
  assume "machine_class machine = MACHINE_CONTAINER \<and>
    in_same_namespace_r env (pid (leader machine)) = 0 \<and>
    0 \<le> pidref_namespace_open_r env \<and> 0 \<le> socketpair_r env \<and> 0 < namespace_fork_r env \<and>
    receive_loop (FAMILY_ADDRESS_SIZE other) (add_local_address_ok env) (recvmsg_r env) []
      = Inl (- EIO)"
  then show "machine_get_addresses other env machine =
        Returned \<lparr>ret = - EIO, ret_addresses = None, reterr_errno = None,
                  sys_calls = [Sys_in_same_namespace, Sys_namespace_open, Sys_socketpair,
                               Sys_namespace_fork, Sys_recvmsg]\<rparr>"
    using get_addresses_loop_error [of machine env other "- EIO"]
    by (simp add: addr_return_def)
next
  assume a: "(\<forall>r \<in> set pre. good_record fas r) \<and> (\<forall>i < length pre. ok (length list + i))"
  then have g: "\<forall>r \<in> set pre. good_record fas r" and k: "\<forall>i < length pre. ok (length list + i)"
    by simp_all
  note after = receive_loop_after_accepted [OF g k]
  show "receive_loop fas ok pre list = Inr (list @ map decode_record pre)"
    by (rule after(1))
  show "receive_loop fas ok (pre @ rcv # rest) list = Inr (list @ map decode_record pre)"
    if "0 \<le> recv_n rcv \<and> nat (recv_n rcv) < sizeof_family"
    using that by (rule after(2))
  show "receive_loop fas ok (pre @ rcv # rest) list = Inl (- EIO)"
    if "sizeof_family \<le> nat (recv_n rcv) \<and>
       nat (recv_n rcv) \<noteq> sizeof_family + fas (family_of (recv_data rcv))"
    using that by (rule after(3))
  show "receive_loop fas ok (pre @ rcv # rest) list = Inl (recv_n rcv)" if "recv_n rcv < 0"
    using that by (rule after(4))
  show "receive_loop fas ok (pre @ rcv # rest) list =
           receive_loop fas ok rest (list @ map decode_record pre @ [decode_record rcv])"
    if "good_record fas rcv \<and> ok (length list + length pre)"
    using that by (rule after(5))
  show "receive_loop fas ok (pre @ rcv # rest) list = Inl (- ENOMEM)"
    if "good_record fas rcv \<and> \<not> ok (length list + length pre)"
    using that by (rule after(6))
next
  fix list' a
  assume "\<forall>r \<in> set rcvs. consistent_receive r"
    and "receive_loop fas ok rcvs list = Inr list' \<and> a \<in> set list'"
  then show "a \<in> set list \<or> length (address a) = fas (family a)"
    using receive_loop_lengths [of rcvs fas ok list list' a] by blast
next
  assume a: "machine_class machine = MACHINE_CONTAINER \<and>
    in_same_namespace_r env (pid (leader machine)) = 0 \<and>
    0 \<le> pidref_namespace_open_r env \<and> 0 \<le> socketpair_r env \<and> 0 < namespace_fork_r env \<and>
    recvmsg_r env = rs @ nxt # later \<and>
    (\<forall>r \<in> set rs. good_record (FAMILY_ADDRESS_SIZE other) r) \<and>
    (\<forall>i < length rs. add_local_address_ok env i)"
  then have g: "\<forall>r \<in> set rs. good_record (FAMILY_ADDRESS_SIZE other) r"
    and k: "\<forall>i < length rs. add_local_address_ok env (length ([] :: local_address list) + i)"
    by simp_all
  note after = receive_loop_after_accepted [OF g k]
  show "machine_get_addresses other env machine =
           Returned \<lparr>ret = - EIO, ret_addresses = None, reterr_errno = None,
                     sys_calls = [Sys_in_same_namespace, Sys_namespace_open, Sys_socketpair,
                                  Sys_namespace_fork, Sys_recvmsg]\<rparr>"
    if b: "sizeof_family \<le> nat (recv_n nxt) \<and>
       nat (recv_n nxt) \<noteq> sizeof_family + FAMILY_ADDRESS_SIZE other (family_of (recv_data nxt))"
  proof -
    from after(3) [where rest = later, OF b] a
    have "receive_loop (FAMILY_ADDRESS_SIZE other) (add_local_address_ok env) (recvmsg_r env) []
        = Inl (- EIO)"
      by simp
    with a show ?thesis
      using get_addresses_loop_error [of machine env other "- EIO"]
      by (simp add: addr_return_def)
  qed
  show "machine_get_addresses other env machine =
           Returned \<lparr>ret = sint (word_of_nat (length rs) :: 32 word),
                     ret_addresses = Some (map decode_record rs), reterr_errno = None,
                     sys_calls = [Sys_in_same_namespace, Sys_namespace_open, Sys_socketpair,
                                  Sys_namespace_fork, Sys_recvmsg, Sys_wait_for_terminate]\<rparr>"
    if b: "0 \<le> recv_n nxt \<and> nat (recv_n nxt) < sizeof_family \<and>
       wait_for_terminate_and_check_r env = EXIT_SUCCESS"
  proof -
    from b have short: "0 \<le> recv_n nxt \<and> nat (recv_n nxt) < sizeof_family" by simp
    from after(2) [where rest = later, OF short] a
    have "receive_loop (FAMILY_ADDRESS_SIZE other) (add_local_address_ok env) (recvmsg_r env) []
        = Inr (map decode_record rs)"
      by simp
    with a b show ?thesis
      using get_addresses_loop_end [of machine env other "map decode_record rs"]
      by simp
  qed
qed

theorem receive_loop_framing_witness:
  "receive_loop (FAMILY_ADDRESS_SIZE example_other) example_alloc [record_eof, record_inet] []
     = Inr [] \<and>
   receive_loop (FAMILY_ADDRESS_SIZE example_other) example_alloc
     [record_inet, record_inet, record_cut_address, record_inet] [] = Inl (- EIO) \<and>
   receive_loop (FAMILY_ADDRESS_SIZE example_other) example_alloc
     [record_inet, record_inet, record_cut_tag, record_inet] []
     = Inr [\<lparr>ifindex = 0, scope = 0, family = AF_INET, address = [10, 0, 0, 5]\<rparr>,
            \<lparr>ifindex = 0, scope = 0, family = AF_INET, address = [10, 0, 0, 5]\<rparr>] \<and>
   receive_loop (FAMILY_ADDRESS_SIZE example_other) example_alloc [record_inet] []
     = Inr [\<lparr>ifindex = 0, scope = 0, family = AF_INET, address = [10, 0, 0, 5]\<rparr>] \<and>
   well_formed_record (FAMILY_ADDRESS_SIZE example_other) record_inet
     \<lparr>ifindex = 0, scope = 0, family = AF_INET, address = [10, 0, 0, 5]\<rparr> \<and>
   consistent_receive record_inet \<and>
   length (address \<lparr>ifindex = 0, scope = 0, family = AF_INET, address = [10, 0, 0, 5]\<rparr>) =
     FAMILY_ADDRESS_SIZE example_other
       (family \<lparr>ifindex = 0, scope = 0, family = AF_INET, address = [10, 0, 0, 5]\<rparr>) \<and>
   machine_get_addresses example_other
     (example_env 0 [record_inet, record_inet, record_cut_address] 0)
     (example_machine ''a'' MACHINE_RUNNING 65536) =
     Returned \<lparr>ret = - EIO, ret_addresses = None, reterr_errno = None,
               sys_calls = [Sys_in_same_namespace, Sys_namespace_open, Sys_socketpair,
                            Sys_namespace_fork, Sys_recvmsg]\<rparr> \<and>
   machine_get_addresses example_other (example_env 0 [record_inet, record_eof] 0)
     (example_machine ''a'' MACHINE_RUNNING 65536) =
     Returned \<lparr>ret = 1,
               ret_addresses = Some [\<lparr>ifindex = 0, scope = 0, family = AF_INET,
                                       address = [10, 0, 0, 5]\<rparr>],
               reterr_errno = None,
               sys_calls = [Sys_in_same_namespace, Sys_namespace_open, Sys_socketpair,
                            Sys_namespace_fork, Sys_recvmsg, Sys_wait_for_terminate]\<rparr>"
proof -
  let ?fas = "FAMILY_ADDRESS_SIZE example_other"
  let ?a = "\<lparr>ifindex = 0, scope = 0, family = AF_INET, address = [10, 0, 0, 5]\<rparr>"
  let ?mc = "example_machine ''a'' MACHINE_RUNNING 65536"
  let ?env1 = "example_env 0 [record_inet, record_inet, record_cut_address] 0"
  let ?env2 = "example_env 0 [record_inet, record_eof] 0"
  have fam: "family_of (recv_data record_inet) = AF_INET"
    "family_of (recv_data record_cut_address) = AF_INET"
    by (simp_all add: record_inet_def record_cut_address_def family_of_def sizeof_family_def
        AF_INET_def)
  have good: "good_record ?fas record_inet"
    using fam(1)
    by (simp add: good_record_def FAMILY_ADDRESS_SIZE_def sizeof_family_def)
      (simp add: record_inet_def)
  have dec: "decode_record record_inet = ?a"
    using fam(1) by (simp add: decode_record_def in_addr_of_def sizeof_family_def)
      (simp add: record_inet_def)
  have eof: "0 \<le> recv_n record_eof \<and> nat (recv_n record_eof) < sizeof_family"
    by (simp add: record_eof_def sizeof_family_def)
  have tag: "0 \<le> recv_n record_cut_tag \<and> nat (recv_n record_cut_tag) < sizeof_family"
    by (simp add: record_cut_tag_def sizeof_family_def)
  have cut: "sizeof_family \<le> nat (recv_n record_cut_address) \<and>
      nat (recv_n record_cut_address) \<noteq>
        sizeof_family + ?fas (family_of (recv_data record_cut_address))"
    using fam(2)
    by (simp add: FAMILY_ADDRESS_SIZE_def sizeof_family_def) (simp add: record_cut_address_def)
  have g1: "\<forall>r \<in> set [record_inet]. good_record ?fas r"
    and g2: "\<forall>r \<in> set [record_inet, record_inet]. good_record ?fas r"
    using good by simp_all
  have k: "\<forall>i < length pre. example_alloc (length ([] :: local_address list) + i)" for pre :: "recv_result list"
    by (simp add: example_alloc_def)
  have pre: "machine_class ?mc = MACHINE_CONTAINER \<and>
      in_same_namespace_r (example_env 0 rcvs 0) (pid (leader ?mc)) = 0 \<and>
      0 \<le> pidref_namespace_open_r (example_env 0 rcvs 0) \<and>
      0 \<le> socketpair_r (example_env 0 rcvs 0) \<and> 0 < namespace_fork_r (example_env 0 rcvs 0) \<and>
      recvmsg_r (example_env 0 rcvs 0) = rcvs \<and>
      wait_for_terminate_and_check_r (example_env 0 rcvs 0) = EXIT_SUCCESS \<and>
      (\<forall>i < n. add_local_address_ok (example_env 0 rcvs 0) i)" for rcvs n
    by (simp add: example_machine_def example_env_def example_same_ns_def EXIT_SUCCESS_def
        example_alloc_def)
  note t1 = receive_loop_framing [where rcv = record_eof and fas = ?fas and ok = example_alloc
      and rest = "[record_inet]" and list = "[]" and rcvs = "[record_inet]"
      and other = example_other]
  note t2 = receive_loop_framing [where rcv = record_cut_address and fas = ?fas
      and ok = example_alloc and rest = "[record_inet]" and list = "[]"
      and pre = "[record_inet, record_inet]" and other = example_other and machine = ?mc
      and env = ?env1 and rs = "[record_inet, record_inet]" and nxt = record_cut_address
      and later = "[]"]
  note t3 = receive_loop_framing [where rcv = record_cut_tag and fas = ?fas
      and ok = example_alloc and rest = "[record_inet]" and list = "[]"
      and pre = "[record_inet, record_inet]" and other = example_other and machine = ?mc
      and env = ?env2 and rs = "[record_inet]" and nxt = record_eof and later = "[]"]
  note t4 = receive_loop_framing [where fas = ?fas and ok = example_alloc and list = "[]"
      and pre = "[record_inet]" and rcvs = "[record_inet]" and other = example_other]
  from t1 eof have c1: "receive_loop ?fas example_alloc [record_eof, record_inet] [] = Inr []"
    by blast
  from t2 g2 k [of "[record_inet, record_inet]"] cut
  have "receive_loop ?fas example_alloc ([record_inet, record_inet] @ record_cut_address # [record_inet]) []
      = Inl (- EIO)"
    by blast
  then have c2: "receive_loop ?fas example_alloc
      [record_inet, record_inet, record_cut_address, record_inet] [] = Inl (- EIO)"
    by simp
  from t3 g2 k [of "[record_inet, record_inet]"] tag
  have "receive_loop ?fas example_alloc ([record_inet, record_inet] @ record_cut_tag # [record_inet]) []
      = Inr ([] @ map decode_record [record_inet, record_inet])"
    by blast
  then have c3: "receive_loop ?fas example_alloc
      [record_inet, record_inet, record_cut_tag, record_inet] [] = Inr [?a, ?a]"
    by (simp add: dec)
  from t4 g1 k [of "[record_inet]"]
  have "receive_loop ?fas example_alloc [record_inet] [] = Inr ([] @ map decode_record [record_inet])"
    by blast
  then have c4: "receive_loop ?fas example_alloc [record_inet] [] = Inr [?a]"
    by (simp add: dec)
  from t4 c4 have c5: "well_formed_record ?fas record_inet ?a"
    by auto
  have cons: "consistent_receive record_inet"
    by (simp add: consistent_receive_def record_inet_def)
  then have "\<forall>r \<in> set [record_inet]. consistent_receive r"
    by simp
  with t4 c4 have c8: "length (address ?a) = ?fas (family ?a)"
    by auto
  from t2 pre [of "[record_inet, record_inet, record_cut_address]" "length [record_inet, record_inet]"]
    g2 cut
  have c6: "machine_get_addresses example_other ?env1 ?mc =
      Returned \<lparr>ret = - EIO, ret_addresses = None, reterr_errno = None,
                sys_calls = [Sys_in_same_namespace, Sys_namespace_open, Sys_socketpair,
                             Sys_namespace_fork, Sys_recvmsg]\<rparr>"
    by simp
  from t3 pre [of "[record_inet, record_eof]" "length [record_inet]"] g1 eof
  have "machine_get_addresses example_other ?env2 ?mc =
      Returned \<lparr>ret = sint (word_of_nat (length [record_inet]) :: 32 word),
                ret_addresses = Some (map decode_record [record_inet]), reterr_errno = None,
                sys_calls = [Sys_in_same_namespace, Sys_namespace_open, Sys_socketpair,
                             Sys_namespace_fork, Sys_recvmsg, Sys_wait_for_terminate]\<rparr>"
    by simp
  then have c7: "machine_get_addresses example_other ?env2 ?mc =
      Returned \<lparr>ret = 1, ret_addresses = Some [?a], reterr_errno = None,
                sys_calls = [Sys_in_same_namespace, Sys_namespace_open, Sys_socketpair,
                             Sys_namespace_fork, Sys_recvmsg, Sys_wait_for_terminate]\<rparr>"
    by (simp add: dec)
  from c1 c2 c3 c4 c5 cons c8 c6 c7 show ?thesis by blast
qed

text \<open>
  Claim C1 as stated fails: a receive of two bytes, shorter than the family tag of four,
  is not a framing error. The loop ends normally, and with a worker that exited
  successfully the call succeeds with an empty list.
\<close>

theorem receive_loop_short_counterexample:
  "0 < recv_n record_cut_tag \<and> nat (recv_n record_cut_tag) < sizeof_family \<and>
   receive_loop (FAMILY_ADDRESS_SIZE example_other) example_alloc [record_cut_tag] [] = Inr [] \<and>
   machine_get_addresses example_other (example_env 0 [record_cut_tag] EXIT_SUCCESS)
     (example_machine ''a'' MACHINE_RUNNING 65536) =
     Returned \<lparr>ret = 0, ret_addresses = Some [], reterr_errno = None,
               sys_calls = [Sys_in_same_namespace, Sys_namespace_open, Sys_socketpair,
                            Sys_namespace_fork, Sys_recvmsg, Sys_wait_for_terminate]\<rparr>"
  by (simp add: record_cut_tag_def sizeof_family_def Let_def machine_get_addresses_def
      example_env_def example_machine_def example_same_ns_def EXIT_SUCCESS_def)


subsection \<open>Address resolution: the namespace guard\<close>

lemma get_addresses_enonet_only:
  assumes "machine_get_addresses other env machine = Returned res"
  shows "(ret res = - ENONET \<and> reterr_errno res \<noteq> None) =
         (machine_class machine = MACHINE_CONTAINER \<and>
          0 < in_same_namespace_r env (pid (leader machine)))"
  using assms
  by (auto simp: machine_get_addresses_def addr_return_def Let_def errno_defs
      split: MachineClass.splits if_splits prod.splits sum.splits)

text \<open>
  Claim C9. For a container-class machine whose network namespace is the caller's own
  (\<^verbatim>\<open>in_same_namespace\<close> answers with a positive value), address resolution fails right
  after that check: no namespace is opened, no channel created and no worker forked. The
  call returns \<^verbatim>\<open>-ENONET\<close>, which differs from the I/O error \<^verbatim>\<open>-EIO\<close>, and stores the answer
  in \<^verbatim>\<open>*reterr_errno\<close>. No other path of the function returns \<^verbatim>\<open>-ENONET\<close> with
  \<^verbatim>\<open>*reterr_errno\<close> written.
\<close>

theorem machine_get_addresses_no_netns:
  assumes "machine_class machine = MACHINE_CONTAINER"
    and "0 < in_same_namespace_r env (pid (leader machine))"
  shows
    "machine_get_addresses other env machine =
       Returned \<lparr>ret = - ENONET, ret_addresses = None,
                 reterr_errno = Some (in_same_namespace_r env (pid (leader machine))),
                 sys_calls = [Sys_in_same_namespace]\<rparr> \<and>
     - ENONET \<noteq> - EIO \<and>
     (\<forall>env' machine' res.
        machine_get_addresses other env' machine' = Returned res \<and>
        ret res = - ENONET \<and> reterr_errno res \<noteq> None \<longrightarrow>
          machine_class machine' = MACHINE_CONTAINER \<and>
          0 < in_same_namespace_r env' (pid (leader machine')))"
proof (intro conjI allI impI)
  show "machine_get_addresses other env machine =
       Returned \<lparr>ret = - ENONET, ret_addresses = None,
                 reterr_errno = Some (in_same_namespace_r env (pid (leader machine))),
                 sys_calls = [Sys_in_same_namespace]\<rparr>"
    using assms by (simp add: machine_get_addresses_def addr_return_def Let_def)
  show "- ENONET \<noteq> - EIO"
    by (simp add: errno_defs)
next
  fix env' machine' res
  assume a: "machine_get_addresses other env' machine' = Returned res \<and>
        ret res = - ENONET \<and> reterr_errno res \<noteq> None"
  then show "machine_class machine' = MACHINE_CONTAINER"
    and "0 < in_same_namespace_r env' (pid (leader machine'))"
    using get_addresses_enonet_only [of other env' machine' res] by blast+
qed

theorem machine_get_addresses_no_netns_witness:
  "machine_class (example_machine ''a'' MACHINE_RUNNING 65536) = MACHINE_CONTAINER \<and>
   0 < in_same_namespace_r (example_env 1 [record_inet] 0)
         (pid (leader (example_machine ''a'' MACHINE_RUNNING 65536))) \<and>
   machine_get_addresses example_other (example_env 1 [record_inet] 0)
     (example_machine ''a'' MACHINE_RUNNING 65536) =
     Returned \<lparr>ret = - 64, ret_addresses = None, reterr_errno = Some 1,
               sys_calls = [Sys_in_same_namespace]\<rparr>"
proof -
  have c: "machine_class (example_machine ''a'' MACHINE_RUNNING 65536) = MACHINE_CONTAINER"
    by (simp add: example_machine_def)
  have n: "0 < in_same_namespace_r (example_env 1 [record_inet] 0)
         (pid (leader (example_machine ''a'' MACHINE_RUNNING 65536)))"
    by (simp add: example_env_def example_same_ns_def)
  show ?thesis
    using c n machine_get_addresses_no_netns [OF c n, of example_other]
    by (simp add: example_env_def example_same_ns_def ENONET_def)
qed

subsection \<open>Address resolution: waiting for the worker\<close>

text \<open>
  Claim C10. In container-class address resolution that reached the end of the receive
  loop: if the wait itself fails the call returns \<^verbatim>\<open>-ECHILD\<close> and stores the failure in
  \<^verbatim>\<open>*reterr_errno\<close>; if the worker exited with a nonzero status the call returns
  \<^verbatim>\<open>-ESHUTDOWN\<close>, which differs from the framing and I/O error \<^verbatim>\<open>-EIO\<close> and from \<^verbatim>\<open>-ECHILD\<close>;
  if the worker exited successfully the call returns the accumulated list, which may be
  empty. A container-class call that returns a list is one whose worker exited
  successfully after the loop ended normally with that list.
\<close>

theorem machine_get_addresses_wait:
  assumes "machine_class machine = MACHINE_CONTAINER"
  shows
    "(in_same_namespace_r env (pid (leader machine)) = 0 \<and>
      0 \<le> pidref_namespace_open_r env \<and> 0 \<le> socketpair_r env \<and> 0 < namespace_fork_r env \<and>
      receive_loop (FAMILY_ADDRESS_SIZE other) (add_local_address_ok env) (recvmsg_r env) []
        = Inr list \<longrightarrow>
        (wait_for_terminate_and_check_r env < 0 \<longrightarrow>
           machine_get_addresses other env machine =
             Returned \<lparr>ret = - ECHILD, ret_addresses = None,
                       reterr_errno = Some (wait_for_terminate_and_check_r env),
                       sys_calls = [Sys_in_same_namespace, Sys_namespace_open, Sys_socketpair,
                                    Sys_namespace_fork, Sys_recvmsg, Sys_wait_for_terminate]\<rparr>) \<and>
        (0 < wait_for_terminate_and_check_r env \<longrightarrow>
           machine_get_addresses other env machine =
             Returned \<lparr>ret = - ESHUTDOWN, ret_addresses = None, reterr_errno = None,
                       sys_calls = [Sys_in_same_namespace, Sys_namespace_open, Sys_socketpair,
                                    Sys_namespace_fork, Sys_recvmsg, Sys_wait_for_terminate]\<rparr>) \<and>
        (wait_for_terminate_and_check_r env = EXIT_SUCCESS \<longrightarrow>
           machine_get_addresses other env machine =
             Returned \<lparr>ret = sint (word_of_nat (length list) :: 32 word),
                       ret_addresses = Some list, reterr_errno = None,
                       sys_calls = [Sys_in_same_namespace, Sys_namespace_open, Sys_socketpair,
                                    Sys_namespace_fork, Sys_recvmsg, Sys_wait_for_terminate]\<rparr>)) \<and>
     (\<forall>res l. machine_get_addresses other env machine = Returned res \<and>
        ret_addresses res = Some l \<longrightarrow>
          wait_for_terminate_and_check_r env = EXIT_SUCCESS \<and>
          receive_loop (FAMILY_ADDRESS_SIZE other) (add_local_address_ok env) (recvmsg_r env) []
            = Inr l) \<and>
     - ESHUTDOWN \<noteq> - EIO \<and> - ESHUTDOWN \<noteq> - ECHILD \<and> - ECHILD \<noteq> - EIO"
  using assms
  by (auto simp: machine_get_addresses_def addr_return_def Let_def errno_defs EXIT_SUCCESS_def
      split: if_splits sum.splits prod.splits)

theorem machine_get_addresses_wait_witness:
  "machine_get_addresses example_other (example_env 0 [] (- 3))
     (example_machine ''a'' MACHINE_RUNNING 65536) =
     Returned \<lparr>ret = - 10, ret_addresses = None, reterr_errno = Some (- 3),
               sys_calls = [Sys_in_same_namespace, Sys_namespace_open, Sys_socketpair,
                            Sys_namespace_fork, Sys_recvmsg, Sys_wait_for_terminate]\<rparr> \<and>
   machine_get_addresses example_other (example_env 0 [] 1)
     (example_machine ''a'' MACHINE_RUNNING 65536) =
     Returned \<lparr>ret = - 108, ret_addresses = None, reterr_errno = None,
               sys_calls = [Sys_in_same_namespace, Sys_namespace_open, Sys_socketpair,
                            Sys_namespace_fork, Sys_recvmsg, Sys_wait_for_terminate]\<rparr> \<and>
   machine_get_addresses example_other (example_env 0 [] 0)
     (example_machine ''a'' MACHINE_RUNNING 65536) =
     Returned \<lparr>ret = 0, ret_addresses = Some [], reterr_errno = None,
               sys_calls = [Sys_in_same_namespace, Sys_namespace_open, Sys_socketpair,
                            Sys_namespace_fork, Sys_recvmsg, Sys_wait_for_terminate]\<rparr>"
proof -
  have c: "machine_class (example_machine ''a'' MACHINE_RUNNING 65536) = MACHINE_CONTAINER"
    by (simp add: example_machine_def)
  have pre: "in_same_namespace_r (example_env 0 [] w)
        (pid (leader (example_machine ''a'' MACHINE_RUNNING 65536))) = 0 \<and>
      0 \<le> pidref_namespace_open_r (example_env 0 [] w) \<and>
      0 \<le> socketpair_r (example_env 0 [] w) \<and> 0 < namespace_fork_r (example_env 0 [] w) \<and>
      receive_loop (FAMILY_ADDRESS_SIZE example_other) (add_local_address_ok (example_env 0 [] w))
        (recvmsg_r (example_env 0 [] w)) [] = Inr []" for w
    by (simp add: example_env_def example_same_ns_def)
  have w: "wait_for_terminate_and_check_r (example_env 0 [] w) = w" for w
    by (simp add: example_env_def)
  show ?thesis
    using machine_get_addresses_wait [OF c, of "example_env 0 [] (- 3)" example_other "[]"]
      machine_get_addresses_wait [OF c, of "example_env 0 [] 1" example_other "[]"]
      machine_get_addresses_wait [OF c, of "example_env 0 [] 0" example_other "[]"]
      pre [of "- 3"] pre [of 1] pre [of 0]
    by (simp add: w errno_defs EXIT_SUCCESS_def)
qed

subsection \<open>The GC pass: one iteration\<close>

lemma body_queue:
  "machine_gc_queue (manager_gc_body stop d p mc m) = machine_gc_queue m"
  by (simp add: manager_gc_body_def machine_free_def machine_finalize_def Let_def)

lemma body_heap_other:
  "q \<noteq> p \<Longrightarrow> heap (manager_gc_body stop d p mc m) q = heap m q"
  by (simp add: manager_gc_body_def machine_free_def machine_finalize_def Let_def)

lemma body_heap_self:
  "heap (manager_gc_body stop d p mc m) p =
     (if machine_may_gc (after_stop_attempt stop d mc) d then None
      else Some (after_stop_attempt stop d mc))"
  by (simp add: manager_gc_body_def machine_free_def machine_finalize_def Let_def
      after_stop_attempt_def)

lemma body_registered_other:
  "q \<noteq> p \<Longrightarrow> registered_as q (manager_gc_body stop d p mc m) = registered_as q m"
  by (simp add: manager_gc_body_def machine_free_def machine_finalize_def Let_def
      registered_as_def keys_of_remove_other)

lemma body_registered_self:
  "registered_as p (manager_gc_body stop d p mc m) =
     (if machine_may_gc (after_stop_attempt stop d mc) d then ([], [], [])
      else registered_as p m)"
  by (simp add: manager_gc_body_def machine_free_def machine_finalize_def Let_def
      registered_as_def keys_of_remove_self after_stop_attempt_def)

lemma registered_as_queue:
  "registered_as p (m\<lparr>machine_gc_queue := xs\<rparr>) = registered_as p m"
  by (simp add: registered_as_def)

lemma body_calls_other:
  "q \<noteq> p \<Longrightarrow> calls_for q (gc_trace (manager_gc_body stop d p mc m)) = calls_for q (gc_trace m)"
  by (simp add: manager_gc_body_def machine_free_def machine_finalize_def Let_def calls_for_def)

lemma body_calls_self:
  "calls_for p (gc_trace (manager_gc_body stop d p mc m)) =
     calls_for p (gc_trace m) @ pass_calls stop d p mc"
  by (simp add: manager_gc_body_def machine_free_def machine_finalize_def Let_def calls_for_def
      after_stop_attempt_def pass_calls_def)

subsection \<open>The GC pass: the whole drain\<close>

lemma manager_gc_Nil: "machine_gc_queue m = [] \<Longrightarrow> manager_gc stop m d = Some m"
  by (simp add: manager_gc.simps)

lemma manager_gc_Cons:
  "machine_gc_queue m = p # rest \<Longrightarrow> heap m p = Some mc \<Longrightarrow>
   manager_gc stop m d =
     manager_gc stop (manager_gc_body stop d p mc (m\<lparr>machine_gc_queue := rest\<rparr>)) d"
  by (subst manager_gc.simps) simp

lemma manager_gc_dangling:
  "machine_gc_queue m = p # rest \<Longrightarrow> heap m p = None \<Longrightarrow> manager_gc stop m d = None"
  by (subst manager_gc.simps) simp

text \<open>A Machine that is not in the queue is left alone by the drain.\<close>

lemma gc_untouched:
  "machine_gc_queue m = q \<Longrightarrow> p \<notin> set q \<Longrightarrow> manager_gc stop m d = Some m' \<Longrightarrow>
   heap m' p = heap m p \<and> calls_for p (gc_trace m') = calls_for p (gc_trace m) \<and>
   registered_as p m' = registered_as p m"
proof (induction q arbitrary: m)
  case Nil
  then show ?case by (simp add: manager_gc_Nil)
next
  case (Cons x xs)
  show ?case
  proof (cases "heap m x")
    case None
    with Cons.prems show ?thesis by (simp add: manager_gc_dangling)
  next
    case (Some mc)
    let ?m1 = "manager_gc_body stop d x mc (m\<lparr>machine_gc_queue := xs\<rparr>)"
    from Cons.prems(2) have ne: "p \<noteq> x" and notin: "p \<notin> set xs" by auto
    have q1: "machine_gc_queue ?m1 = xs" by (simp add: body_queue)
    from Cons.prems(1,3) Some have run: "manager_gc stop ?m1 d = Some m'"
      by (simp add: manager_gc_Cons)
    from Cons.IH [OF q1 notin run] ne show ?thesis
      by (simp add: body_heap_other body_calls_other body_registered_other registered_as_queue)
  qed
qed

text \<open>What the drain does to a queued Machine is what its own iteration does.\<close>

lemma gc_fate:
  "machine_gc_queue m = q \<Longrightarrow> distinct q \<Longrightarrow> p \<in> set q \<Longrightarrow> heap m p = Some mc \<Longrightarrow>
   manager_gc stop m d = Some m' \<Longrightarrow>
   heap m' p = (if machine_may_gc (after_stop_attempt stop d mc) d then None
                else Some (after_stop_attempt stop d mc)) \<and>
   calls_for p (gc_trace m') = calls_for p (gc_trace m) @ pass_calls stop d p mc \<and>
   registered_as p m' = (if machine_may_gc (after_stop_attempt stop d mc) d then ([], [], [])
                         else registered_as p m)"
proof (induction q arbitrary: m)
  case Nil
  then show ?case by simp
next
  case (Cons x xs)
  show ?case
  proof (cases "heap m x")
    case None
    with Cons.prems show ?thesis by (simp add: manager_gc_dangling)
  next
    case (Some mx)
    let ?m1 = "manager_gc_body stop d x mx (m\<lparr>machine_gc_queue := xs\<rparr>)"
    have q1: "machine_gc_queue ?m1 = xs" by (simp add: body_queue)
    from Cons.prems(1,5) Some have run: "manager_gc stop ?m1 d = Some m'"
      by (simp add: manager_gc_Cons)
    from Cons.prems(2) have dist: "distinct xs" and xnotin: "x \<notin> set xs" by auto
    show ?thesis
    proof (cases "p = x")
      case True
      with Some Cons.prems(4) have mx: "mx = mc" by simp
      from gc_untouched [OF q1 _ run, of p] True xnotin
      have "heap m' p = heap ?m1 p \<and> calls_for p (gc_trace m') = calls_for p (gc_trace ?m1) \<and>
            registered_as p m' = registered_as p ?m1"
        by simp
      with True mx show ?thesis
        by (simp add: body_heap_self body_calls_self body_registered_self registered_as_queue)
    next
      case False
      with Cons.prems(3) have pin: "p \<in> set xs" by simp
      from False Cons.prems(4) have hp: "heap ?m1 p = Some mc"
        by (simp add: body_heap_other)
      from Cons.IH [OF q1 dist pin hp run] False show ?thesis
        by (simp add: body_calls_other body_registered_other registered_as_queue)
    qed
  qed
qed

text \<open>The drain of a queue of live pointers, each queued once, returns with the queue empty.\<close>

lemma gc_total:
  "machine_gc_queue m = q \<Longrightarrow> distinct q \<Longrightarrow> \<forall>p \<in> set q. heap m p \<noteq> None \<Longrightarrow>
   \<exists>m'. manager_gc stop m d = Some m' \<and> machine_gc_queue m' = []"
proof (induction q arbitrary: m)
  case Nil
  then show ?case by (simp add: manager_gc_Nil)
next
  case (Cons x xs)
  then obtain mx where Some: "heap m x = Some mx" by auto
  let ?m1 = "manager_gc_body stop d x mx (m\<lparr>machine_gc_queue := xs\<rparr>)"
  have q1: "machine_gc_queue ?m1 = xs" by (simp add: body_queue)
  from Cons.prems(2) have dist: "distinct xs" and xnotin: "x \<notin> set xs" by auto
  have live: "\<forall>p \<in> set xs. heap ?m1 p \<noteq> None"
  proof
    fix p assume "p \<in> set xs"
    with xnotin Cons.prems(3) have "p \<noteq> x" and "heap m p \<noteq> None" by auto
    then show "heap ?m1 p \<noteq> None" by (simp add: body_heap_other)
  qed
  from Cons.IH [OF q1 dist live] Cons.prems(1) Some show ?case
    by (simp add: manager_gc_Cons)
qed

lemma gc_drain:
  assumes "gc_queue_ok m" and "p \<in> set (machine_gc_queue m)" and "heap m p = Some mc"
  shows "\<exists>m'. manager_gc stop m d = Some m' \<and> machine_gc_queue m' = [] \<and>
     heap m' p = (if machine_may_gc (after_stop_attempt stop d mc) d then None
                  else Some (after_stop_attempt stop d mc)) \<and>
     calls_for p (gc_trace m') = calls_for p (gc_trace m) @ pass_calls stop d p mc \<and>
     registered_as p m' = (if machine_may_gc (after_stop_attempt stop d mc) d then ([], [], [])
                           else registered_as p m)"
proof -
  from assms(1) have dist: "distinct (machine_gc_queue m)"
    and live: "\<forall>p \<in> set (machine_gc_queue m). heap m p \<noteq> None"
    by (simp_all add: gc_queue_ok_def list_all_iff)
  from gc_total [OF refl dist live] obtain m' where
    run: "manager_gc stop m d = Some m'" and empty: "machine_gc_queue m' = []"
    by blast
  from gc_fate [OF refl dist assms(2,3) run] run empty show ?thesis
    by simp
qed

lemma opening_not_collected:
  assumes "machine_get_state mc = MACHINE_OPENING"
  shows "after_stop_attempt stop False mc = mc\<lparr>in_gc_queue := False\<rparr>"
    and "\<not> machine_may_gc (after_stop_attempt stop False mc) False"
    and "pass_calls stop False p mc = []"
  using assms
  by (simp_all add: after_stop_attempt_def machine_may_gc_def machine_get_state_def
      pass_calls_def)

lemma opening_dropped:
  assumes "machine_get_state mc = MACHINE_OPENING" and "external_refs mc = 0"
    and "external_refs (machine_stop stop (mc\<lparr>in_gc_queue := False\<rparr>)) = 0"
  shows "machine_may_gc (after_stop_attempt stop True mc) True"
    and "pass_calls stop True p mc = [Call_stop p, Call_finalize p, Call_free p]"
  using assms
  by (simp_all add: after_stop_attempt_def machine_may_gc_def machine_get_state_def
      pass_calls_def)

text \<open>
  Claim C2. Let the GC queue hold live pointers, each once, and let a queued machine be in
  state Opening. A drain with drop_not_started false returns and neither stops, finalizes
  nor frees that machine: it is still live, with its queue flag cleared, and registered as
  before. A drain with drop_not_started true, for a machine without outstanding external
  references (before and after the stop attempt), returns having stopped, finalized and
  freed it: it is no longer live and no index holds it. Moreover whatever machine a drain
  with drop_not_started false destroys was not in state Opening when the second
  may-collect evaluation was made.
\<close>

theorem manager_gc_opening:
  assumes "gc_queue_ok m" and "p \<in> set (machine_gc_queue m)" and "heap m p = Some mc"
    and "machine_get_state mc = MACHINE_OPENING"
  shows
    "(\<exists>m'. manager_gc stop m False = Some m' \<and>
        heap m' p = Some (mc\<lparr>in_gc_queue := False\<rparr>) \<and>
        calls_for p (gc_trace m') = calls_for p (gc_trace m) \<and>
        registered_as p m' = registered_as p m) \<and>
     (external_refs mc = 0 \<and>
      external_refs (machine_stop stop (mc\<lparr>in_gc_queue := False\<rparr>)) = 0 \<longrightarrow>
        (\<exists>m'. manager_gc stop m True = Some m' \<and> heap m' p = None \<and>
           calls_for p (gc_trace m') =
             calls_for p (gc_trace m) @ [Call_stop p, Call_finalize p, Call_free p] \<and>
           registered_as p m' = ([], [], []))) \<and>
     (\<forall>q mq m'. q \<in> set (machine_gc_queue m) \<and> heap m q = Some mq \<and>
        manager_gc stop m False = Some m' \<and> heap m' q = None \<longrightarrow>
          machine_get_state (after_stop_attempt stop False mq) \<noteq> MACHINE_OPENING)"
proof (intro conjI impI allI)
  from gc_drain [OF assms(1-3), of stop False] opening_not_collected [OF assms(4), of stop]
  show "\<exists>m'. manager_gc stop m False = Some m' \<and>
        heap m' p = Some (mc\<lparr>in_gc_queue := False\<rparr>) \<and>
        calls_for p (gc_trace m') = calls_for p (gc_trace m) \<and>
        registered_as p m' = registered_as p m"
    by (auto simp: opening_not_collected(3) [OF assms(4)])
next
  assume "external_refs mc = 0 \<and>
      external_refs (machine_stop stop (mc\<lparr>in_gc_queue := False\<rparr>)) = 0"
  then have r: "external_refs mc = 0"
    "external_refs (machine_stop stop (mc\<lparr>in_gc_queue := False\<rparr>)) = 0"
    by simp_all
  from gc_drain [OF assms(1-3), of stop True] opening_dropped [OF assms(4) r]
  show "\<exists>m'. manager_gc stop m True = Some m' \<and> heap m' p = None \<and>
           calls_for p (gc_trace m') =
             calls_for p (gc_trace m) @ [Call_stop p, Call_finalize p, Call_free p] \<and>
           registered_as p m' = ([], [], [])"
    by (auto simp: opening_dropped(2) [OF assms(4) r])
next
  fix q mq m'
  assume a: "q \<in> set (machine_gc_queue m) \<and> heap m q = Some mq \<and>
        manager_gc stop m False = Some m' \<and> heap m' q = None"
  from assms(1) have dist: "distinct (machine_gc_queue m)"
    by (simp add: gc_queue_ok_def)
  from a gc_fate [OF refl dist, of q mq stop False m']
  have "machine_may_gc (after_stop_attempt stop False mq) False"
    by (auto split: if_splits)
  then show "machine_get_state (after_stop_attempt stop False mq) \<noteq> MACHINE_OPENING"
    by (simp add: machine_may_gc_def)
qed

lemma example_gc_facts:
  shows example_queue_ok: "gc_queue_ok example_manager"
    and example_queue: "machine_gc_queue example_manager = [1, 2]"
    and example_heap_a:
      "heap example_manager 1 = Some (example_machine ''a'' MACHINE_OPENING 65536)"
    and example_heap_b:
      "heap example_manager 2 = Some (example_machine ''b'' MACHINE_RUNNING 131072)"
    and example_trace: "gc_trace example_manager = []"
    and example_registered_a: "registered_as 1 example_manager = ([''a''], [\<lparr>pid = 100\<rparr>], [])"
    and example_registered_b: "registered_as 2 example_manager = ([''b''], [], [''b.scope''])"
  by (simp_all add: example_manager_def gc_queue_ok_def registered_as_def keys_of_def)

theorem manager_gc_opening_witness:
  "gc_queue_ok example_manager \<and> 1 \<in> set (machine_gc_queue example_manager) \<and>
   machine_get_state (example_machine ''a'' MACHINE_OPENING 65536) = MACHINE_OPENING \<and>
   (\<exists>m'. manager_gc example_stop example_manager False = Some m' \<and>
      heap m' 1 = Some ((example_machine ''a'' MACHINE_OPENING 65536)\<lparr>in_gc_queue := False\<rparr>) \<and>
      calls_for 1 (gc_trace m') = [] \<and>
      registered_as 1 m' = ([''a''], [\<lparr>pid = 100\<rparr>], [])) \<and>
   (\<exists>m'. manager_gc example_stop example_manager True = Some m' \<and> heap m' 1 = None \<and>
      calls_for 1 (gc_trace m') = [Call_stop 1, Call_finalize 1, Call_free 1] \<and>
      registered_as 1 m' = ([], [], []))"
proof -
  have q: "1 \<in> set (machine_gc_queue example_manager)"
    by (simp add: example_queue)
  have o: "machine_get_state (example_machine ''a'' MACHINE_OPENING 65536) = MACHINE_OPENING"
    by (simp add: machine_get_state_def example_machine_def)
  have r: "external_refs (example_machine ''a'' MACHINE_OPENING 65536) = 0 \<and>
      external_refs (machine_stop example_stop
        ((example_machine ''a'' MACHINE_OPENING 65536)\<lparr>in_gc_queue := False\<rparr>)) = 0"
    by (simp add: example_machine_def machine_stop_def example_stop_def)
  have cf: "calls_for 1 (gc_trace example_manager) = []"
    by (simp add: example_trace calls_for_def)
  note t = manager_gc_opening [OF example_queue_ok q example_heap_a o, of example_stop]
  from t have keep: "\<exists>m'. manager_gc example_stop example_manager False = Some m' \<and>
      heap m' 1 = Some ((example_machine ''a'' MACHINE_OPENING 65536)\<lparr>in_gc_queue := False\<rparr>) \<and>
      calls_for 1 (gc_trace m') = calls_for 1 (gc_trace example_manager) \<and>
      registered_as 1 m' = registered_as 1 example_manager"
    by blast
  from t r have drop: "\<exists>m'. manager_gc example_stop example_manager True = Some m' \<and>
      heap m' 1 = None \<and>
      calls_for 1 (gc_trace m') =
        calls_for 1 (gc_trace example_manager) @ [Call_stop 1, Call_finalize 1, Call_free 1] \<and>
      registered_as 1 m' = ([], [], [])"
    by blast
  from example_queue_ok q o keep drop show ?thesis
    by (simp only: cf example_registered_a append_Nil simp_thms)
qed

text \<open>
  Claim C3. Let the GC queue hold live pointers, each once. For a queued machine for which
  the second may-collect evaluation, after the stop attempt, does not hold, the drain
  returns and the machine is neither finalized nor freed (the only call about it is the
  stop, if the first evaluation held and it was not Closing). It is still live, its
  \<open>in_gc_queue\<close> flag is false, and it is registered under the same keys as before. The
  queue is empty after the pass, so the machine is not examined again: a further pass,
  with whatever arguments, changes nothing.
\<close>

theorem manager_gc_survivor:
  assumes "gc_queue_ok m" and "p \<in> set (machine_gc_queue m)" and "heap m p = Some mc"
    and "\<not> machine_may_gc (after_stop_attempt stop d mc) d"
  shows
    "\<exists>m'. manager_gc stop m d = Some m' \<and>
       heap m' p = Some (after_stop_attempt stop d mc) \<and>
       \<not> in_gc_queue (after_stop_attempt stop d mc) \<and>
       calls_for p (gc_trace m') =
         calls_for p (gc_trace m) @
           (if machine_may_gc (mc\<lparr>in_gc_queue := False\<rparr>) d \<and>
               machine_get_state mc \<noteq> MACHINE_CLOSING
            then [Call_stop p] else []) \<and>
       registered_as p m' = registered_as p m \<and>
       p \<notin> set (machine_gc_queue m') \<and>
       (\<forall>stop' d'. manager_gc stop' m' d' = Some m')"
proof -
  from gc_drain [OF assms(1-3), of stop d] assms(4) obtain m' where
    run: "manager_gc stop m d = Some m'" and empty: "machine_gc_queue m' = []"
    and live: "heap m' p = Some (after_stop_attempt stop d mc)"
    and calls: "calls_for p (gc_trace m') = calls_for p (gc_trace m) @ pass_calls stop d p mc"
    and reg: "registered_as p m' = registered_as p m"
    by auto
  have flag: "\<not> in_gc_queue (after_stop_attempt stop d mc)"
    by (simp add: after_stop_attempt_def machine_stop_def split_beta)
  from assms(4) have pc: "pass_calls stop d p mc =
      (if machine_may_gc (mc\<lparr>in_gc_queue := False\<rparr>) d \<and>
          machine_get_state mc \<noteq> MACHINE_CLOSING
       then [Call_stop p] else [])"
    by (simp add: pass_calls_def machine_get_state_def)
  from empty have again: "\<forall>stop' d'. manager_gc stop' m' d' = Some m'"
    by (simp add: manager_gc_Nil)
  from run live flag calls pc reg empty again show ?thesis
    by simp
qed

theorem manager_gc_survivor_witness:
  "gc_queue_ok example_manager \<and> 2 \<in> set (machine_gc_queue example_manager) \<and>
   \<not> machine_may_gc
       (after_stop_attempt example_stop True (example_machine ''b'' MACHINE_RUNNING 131072)) True \<and>
   (\<exists>m'. manager_gc example_stop example_manager True = Some m' \<and>
      heap m' 2 = Some ((example_machine ''b'' MACHINE_RUNNING 131072)
                          \<lparr>state := MACHINE_CLOSING, in_gc_queue := False, external_refs := 1\<rparr>) \<and>
      calls_for 2 (gc_trace m') = [Call_stop 2] \<and>
      registered_as 2 m' = ([''b''], [], [''b.scope'']) \<and>
      2 \<notin> set (machine_gc_queue m') \<and>
      manager_gc example_stop m' True = Some m')"
proof -
  let ?b = "example_machine ''b'' MACHINE_RUNNING 131072"
  have q: "2 \<in> set (machine_gc_queue example_manager)"
    by (simp add: example_queue)
  have a: "after_stop_attempt example_stop True ?b =
      ?b\<lparr>state := MACHINE_CLOSING, in_gc_queue := False, external_refs := 1\<rparr>"
    by (simp add: after_stop_attempt_def machine_may_gc_def machine_get_state_def
        machine_stop_def example_stop_def example_machine_def)
  have n: "\<not> machine_may_gc (after_stop_attempt example_stop True ?b) True"
    by (simp add: a machine_may_gc_def)
  have s: "machine_may_gc (?b\<lparr>in_gc_queue := False\<rparr>) True \<and>
      machine_get_state ?b \<noteq> MACHINE_CLOSING"
    by (simp add: machine_may_gc_def machine_get_state_def example_machine_def)
  have cf: "calls_for 2 (gc_trace example_manager) = []"
    by (simp add: example_trace calls_for_def)
  from manager_gc_survivor [OF example_queue_ok q example_heap_b n] s
  have "\<exists>m'. manager_gc example_stop example_manager True = Some m' \<and>
      heap m' 2 = Some (after_stop_attempt example_stop True ?b) \<and>
      calls_for 2 (gc_trace m') = [Call_stop 2] \<and>
      registered_as 2 m' = ([''b''], [], [''b.scope'']) \<and>
      2 \<notin> set (machine_gc_queue m') \<and>
      manager_gc example_stop m' True = Some m'"
    by (simp only: cf example_registered_b append_Nil if_True simp_thms) blast
  with example_queue_ok q n show ?thesis
    by (simp only: a simp_thms)
qed

subsection \<open>The deferred GC task\<close>

lemma enqueue_frame:
  shows "machine_gc_queue (manager_enqueue_gc ev m) = machine_gc_queue m"
    and "heap (manager_enqueue_gc ev m) = heap m"
    and "gc_trace (manager_enqueue_gc ev m) = gc_trace m"
    and "registered_as p (manager_enqueue_gc ev m) = registered_as p m"
    and "gc_queue_ok (manager_enqueue_gc ev m) = gc_queue_ok m"
  by (simp_all add: manager_enqueue_gc_def registered_as_def gc_queue_ok_def Let_def
      split: option.splits)

lemma enqueue_installs:
  assumes "deferred_gc_event_source m = None" and "0 \<le> add_defer_r ev"
  shows "\<exists>s. deferred_gc_event_source (manager_enqueue_gc ev m) = Some s \<and>
           handler s = On_deferred_gc"
  using assms
  by (simp add: manager_enqueue_gc_def sd_event_add_defer_def
      sd_event_source_set_priority_def sd_event_source_set_description_def Let_def)

lemma deferred_pass:
  assumes "gc_queue_ok m" and "q \<in> set (machine_gc_queue m)" and "heap m q = Some mq"
  shows "\<exists>m'. on_deferred_gc stop m = Some (0, m') \<and> machine_gc_queue m' = [] \<and>
     heap m' q = (if machine_may_gc (after_stop_attempt stop True mq) True then None
                  else Some (after_stop_attempt stop True mq)) \<and>
     calls_for q (gc_trace m') = calls_for q (gc_trace m) @ pass_calls stop True q mq \<and>
     registered_as q m' = (if machine_may_gc (after_stop_attempt stop True mq) True
                           then ([], [], []) else registered_as q m)"
proof -
  from gc_drain [OF assms, of stop True] obtain m' where
    "manager_gc stop m True = Some m'" and "machine_gc_queue m' = []"
    and "heap m' q = (if machine_may_gc (after_stop_attempt stop True mq) True then None
                  else Some (after_stop_attempt stop True mq))"
    and "calls_for q (gc_trace m') = calls_for q (gc_trace m) @ pass_calls stop True q mq"
    and "registered_as q m' = (if machine_may_gc (after_stop_attempt stop True mq) True
                           then ([], [], []) else registered_as q m)"
    by blast
  then show ?thesis
    by (simp add: on_deferred_gc_def)
qed

text \<open>
  Claim C4. Every run of the deferred GC task drains the queue with drop_not_started set:
  \<^verbatim>\<open>on_deferred_gc\<close> is the drain with \<open>True\<close> and returns 0, so that each queued machine
  meets the fate the drain with \<open>True\<close> gives it. In particular a queued machine in state
  Opening without outstanding external references is stopped, finalized and freed by the
  deferred pass, while the drain with \<open>False\<close>, which only a direct call makes, leaves it
  alive: the deferred pass is not that drain. \<^verbatim>\<open>manager_enqueue_gc\<close> takes no such flag:
  the source it creates has the handler \<^verbatim>\<open>on_deferred_gc\<close> (and idle priority when setting
  it succeeds), an existing source keeps its handler, nothing but the event source of the
  manager changes, and dispatching the created source destroys the Opening machine
  whatever the outcomes of the sd-event calls of the enqueue.
\<close>

theorem on_deferred_gc_drops_not_started:
  "on_deferred_gc stop m = map_option (Pair 0) (manager_gc stop m True) \<and>
   (deferred_gc_event_source m = None \<and> 0 \<le> add_defer_r ev \<longrightarrow>
      map_option handler (deferred_gc_event_source (manager_enqueue_gc ev m))
        = Some On_deferred_gc) \<and>
   (deferred_gc_event_source m = None \<and> 0 \<le> add_defer_r ev \<and> 0 \<le> set_priority_r ev \<longrightarrow>
      map_option priority (deferred_gc_event_source (manager_enqueue_gc ev m))
        = Some SD_EVENT_PRIORITY_IDLE) \<and>
   (\<forall>s. deferred_gc_event_source m = Some s \<longrightarrow>
      map_option handler (deferred_gc_event_source (manager_enqueue_gc ev m))
        = Some (handler s)) \<and>
   manager_enqueue_gc ev m = m\<lparr>deferred_gc_event_source :=
                                  deferred_gc_event_source (manager_enqueue_gc ev m)\<rparr> \<and>
   (gc_queue_ok m \<and> q \<in> set (machine_gc_queue m) \<and> heap m q = Some mq \<longrightarrow>
      (\<exists>m'. on_deferred_gc stop m = Some (0, m') \<and> machine_gc_queue m' = [] \<and>
         heap m' q = (if machine_may_gc (after_stop_attempt stop True mq) True then None
                      else Some (after_stop_attempt stop True mq)) \<and>
         calls_for q (gc_trace m') = calls_for q (gc_trace m) @ pass_calls stop True q mq \<and>
         registered_as q m' = (if machine_may_gc (after_stop_attempt stop True mq) True
                               then ([], [], []) else registered_as q m))) \<and>
   (gc_queue_ok m \<and> p \<in> set (machine_gc_queue m) \<and> heap m p = Some mc \<and>
    machine_get_state mc = MACHINE_OPENING \<and> external_refs mc = 0 \<and>
    external_refs (machine_stop stop (mc\<lparr>in_gc_queue := False\<rparr>)) = 0 \<longrightarrow>
      (\<exists>m'. on_deferred_gc stop m = Some (0, m') \<and> machine_gc_queue m' = [] \<and>
         heap m' p = None \<and>
         calls_for p (gc_trace m') =
           calls_for p (gc_trace m) @ [Call_stop p, Call_finalize p, Call_free p] \<and>
         registered_as p m' = ([], [], [])) \<and>
      (\<exists>m''. manager_gc stop m False = Some m'' \<and>
         heap m'' p = Some (mc\<lparr>in_gc_queue := False\<rparr>) \<and>
         calls_for p (gc_trace m'') = calls_for p (gc_trace m)) \<and>
      on_deferred_gc stop m \<noteq> map_option (Pair 0) (manager_gc stop m False) \<and>
      (deferred_gc_event_source m = None \<and> 0 \<le> add_defer_r ev \<longrightarrow>
         (\<exists>s m'. deferred_gc_event_source (manager_enqueue_gc ev m) = Some s \<and>
            dispatch_source elsewhere s stop (manager_enqueue_gc ev m) = Some (0, m') \<and>
            machine_gc_queue m' = [] \<and> heap m' p = None \<and>
            calls_for p (gc_trace m') =
              calls_for p (gc_trace m) @ [Call_stop p, Call_finalize p, Call_free p] \<and>
            registered_as p m' = ([], [], []))))"
proof (intro conjI impI allI)
  show "on_deferred_gc stop m = map_option (Pair 0) (manager_gc stop m True)"
    by (simp add: on_deferred_gc_def split: option.splits)
next
  assume "deferred_gc_event_source m = None \<and> 0 \<le> add_defer_r ev"
  then show "map_option handler (deferred_gc_event_source (manager_enqueue_gc ev m))
        = Some On_deferred_gc"
    using enqueue_installs [of m ev] by auto
next
  assume "deferred_gc_event_source m = None \<and> 0 \<le> add_defer_r ev \<and> 0 \<le> set_priority_r ev"
  then show "map_option priority (deferred_gc_event_source (manager_enqueue_gc ev m))
        = Some SD_EVENT_PRIORITY_IDLE"
    by (simp add: manager_enqueue_gc_def sd_event_add_defer_def
        sd_event_source_set_priority_def sd_event_source_set_description_def Let_def)
next
  fix s assume "deferred_gc_event_source m = Some s"
  then show "map_option handler (deferred_gc_event_source (manager_enqueue_gc ev m))
        = Some (handler s)"
    by (simp add: manager_enqueue_gc_def sd_event_source_set_enabled_def)
next
  show "manager_enqueue_gc ev m = m\<lparr>deferred_gc_event_source :=
                                  deferred_gc_event_source (manager_enqueue_gc ev m)\<rparr>"
    by (simp add: manager_enqueue_gc_def Let_def split: option.splits)
next
  assume "gc_queue_ok m \<and> q \<in> set (machine_gc_queue m) \<and> heap m q = Some mq"
  then show "\<exists>m'. on_deferred_gc stop m = Some (0, m') \<and> machine_gc_queue m' = [] \<and>
         heap m' q = (if machine_may_gc (after_stop_attempt stop True mq) True then None
                      else Some (after_stop_attempt stop True mq)) \<and>
         calls_for q (gc_trace m') = calls_for q (gc_trace m) @ pass_calls stop True q mq \<and>
         registered_as q m' = (if machine_may_gc (after_stop_attempt stop True mq) True
                               then ([], [], []) else registered_as q m)"
    using deferred_pass [of m q mq stop] by blast
next
  assume a: "gc_queue_ok m \<and> p \<in> set (machine_gc_queue m) \<and> heap m p = Some mc \<and>
    machine_get_state mc = MACHINE_OPENING \<and> external_refs mc = 0 \<and>
    external_refs (machine_stop stop (mc\<lparr>in_gc_queue := False\<rparr>)) = 0"
  then have ok: "gc_queue_ok m" and pin: "p \<in> set (machine_gc_queue m)"
    and hp: "heap m p = Some mc" and op: "machine_get_state mc = MACHINE_OPENING"
    and r: "external_refs mc = 0"
      "external_refs (machine_stop stop (mc\<lparr>in_gc_queue := False\<rparr>)) = 0"
    by simp_all
  note dropped = opening_dropped [OF op r]
  note kept = opening_not_collected [OF op, of stop]
  from deferred_pass [OF ok pin hp, of stop] dropped(1) dropped(2) [of p]
  show true_pass: "\<exists>m'. on_deferred_gc stop m = Some (0, m') \<and> machine_gc_queue m' = [] \<and>
         heap m' p = None \<and>
         calls_for p (gc_trace m') =
           calls_for p (gc_trace m) @ [Call_stop p, Call_finalize p, Call_free p] \<and>
         registered_as p m' = ([], [], [])"
    by auto
  from gc_drain [OF ok pin hp, of stop False] kept(1) kept(2) kept(3) [of p]
  show false_pass: "\<exists>m''. manager_gc stop m False = Some m'' \<and>
         heap m'' p = Some (mc\<lparr>in_gc_queue := False\<rparr>) \<and>
         calls_for p (gc_trace m'') = calls_for p (gc_trace m)"
    by auto
  from true_pass false_pass
  show "on_deferred_gc stop m \<noteq> map_option (Pair 0) (manager_gc stop m False)"
    by auto
  show "\<exists>s m'. deferred_gc_event_source (manager_enqueue_gc ev m) = Some s \<and>
            dispatch_source elsewhere s stop (manager_enqueue_gc ev m) = Some (0, m') \<and>
            machine_gc_queue m' = [] \<and> heap m' p = None \<and>
            calls_for p (gc_trace m') =
              calls_for p (gc_trace m) @ [Call_stop p, Call_finalize p, Call_free p] \<and>
            registered_as p m' = ([], [], [])"
    if b: "deferred_gc_event_source m = None \<and> 0 \<le> add_defer_r ev"
  proof -
    let ?m1 = "manager_enqueue_gc ev m"
    from b enqueue_installs [of m ev] obtain s where
      src: "deferred_gc_event_source ?m1 = Some s" and h: "handler s = On_deferred_gc"
      by blast
    from ok pin hp have ok1: "gc_queue_ok ?m1" and pin1: "p \<in> set (machine_gc_queue ?m1)"
      and hp1: "heap ?m1 p = Some mc"
      by (simp_all add: enqueue_frame)
    from deferred_pass [OF ok1 pin1 hp1, of stop] dropped(1) dropped(2) [of p]
    obtain m' where "on_deferred_gc stop ?m1 = Some (0, m')" and "machine_gc_queue m' = []"
      and "heap m' p = None"
      and "calls_for p (gc_trace m') =
              calls_for p (gc_trace m) @ [Call_stop p, Call_finalize p, Call_free p]"
      and "registered_as p m' = ([], [], [])"
      by (auto simp: enqueue_frame)
    with src h show ?thesis
      by (simp add: dispatch_source_def)
  qed
qed

theorem on_deferred_gc_drops_not_started_witness:
  "(\<exists>m'. on_deferred_gc example_stop example_manager = Some (0, m') \<and>
      machine_gc_queue m' = [] \<and> heap m' 1 = None \<and>
      calls_for 1 (gc_trace m') = [Call_stop 1, Call_finalize 1, Call_free 1] \<and>
      registered_as 1 m' = ([], [], []) \<and>
      heap m' 2 = Some ((example_machine ''b'' MACHINE_RUNNING 131072)
                          \<lparr>state := MACHINE_CLOSING, in_gc_queue := False, external_refs := 1\<rparr>) \<and>
      calls_for 2 (gc_trace m') = [Call_stop 2] \<and>
      registered_as 2 m' = ([''b''], [], [''b.scope''])) \<and>
   (\<exists>m''. manager_gc example_stop example_manager False = Some m'' \<and>
      heap m'' 1 = Some ((example_machine ''a'' MACHINE_OPENING 65536)\<lparr>in_gc_queue := False\<rparr>) \<and>
      calls_for 1 (gc_trace m'') = []) \<and>
   on_deferred_gc example_stop example_manager \<noteq>
     map_option (Pair 0) (manager_gc example_stop example_manager False) \<and>
   deferred_gc_event_source example_manager = None \<and>
   map_option handler (deferred_gc_event_source
      (manager_enqueue_gc example_sd_event example_manager)) = Some On_deferred_gc \<and>
   map_option priority (deferred_gc_event_source
      (manager_enqueue_gc example_sd_event example_manager)) = Some 100 \<and>
   map_option handler (deferred_gc_event_source
      (manager_enqueue_gc example_sd_event
         (manager_enqueue_gc example_sd_event example_manager))) = Some On_deferred_gc \<and>
   (\<exists>s m'. deferred_gc_event_source (manager_enqueue_gc example_sd_event example_manager) = Some s \<and>
      dispatch_source example_elsewhere s example_stop
        (manager_enqueue_gc example_sd_event example_manager) = Some (0, m') \<and>
      machine_gc_queue m' = [] \<and> heap m' 1 = None \<and>
      calls_for 1 (gc_trace m') = [Call_stop 1, Call_finalize 1, Call_free 1] \<and>
      registered_as 1 m' = ([], [], []))"
proof -
  let ?a = "example_machine ''a'' MACHINE_OPENING 65536"
  let ?b = "example_machine ''b'' MACHINE_RUNNING 131072"
  let ?m1 = "manager_enqueue_gc example_sd_event example_manager"
  have q1: "1 \<in> set (machine_gc_queue example_manager)"
    and q2: "2 \<in> set (machine_gc_queue example_manager)"
    by (simp_all add: example_queue)
  have cf: "calls_for 1 (gc_trace example_manager) = []"
    "calls_for 2 (gc_trace example_manager) = []"
    by (simp_all add: example_trace calls_for_def)
  have hyp: "gc_queue_ok example_manager \<and> 1 \<in> set (machine_gc_queue example_manager) \<and>
      heap example_manager 1 = Some ?a \<and> machine_get_state ?a = MACHINE_OPENING \<and>
      external_refs ?a = 0 \<and>
      external_refs (machine_stop example_stop (?a\<lparr>in_gc_queue := False\<rparr>)) = 0"
    using example_queue_ok q1 example_heap_a
    by (simp add: machine_get_state_def example_machine_def machine_stop_def example_stop_def)
  have hyp2: "gc_queue_ok example_manager \<and> 2 \<in> set (machine_gc_queue example_manager) \<and>
      heap example_manager 2 = Some ?b"
    using example_queue_ok q2 example_heap_b by simp
  have b_after: "after_stop_attempt example_stop True ?b =
      ?b\<lparr>state := MACHINE_CLOSING, in_gc_queue := False, external_refs := 1\<rparr>"
    by (simp add: after_stop_attempt_def machine_may_gc_def machine_get_state_def
        machine_stop_def example_stop_def example_machine_def)
  have b_kept: "\<not> machine_may_gc (after_stop_attempt example_stop True ?b) True"
    by (simp add: b_after machine_may_gc_def)
  have b_calls: "pass_calls example_stop True 2 ?b = [Call_stop 2]"
    using b_kept
    by (simp add: pass_calls_def machine_may_gc_def machine_get_state_def example_machine_def)
  have none: "deferred_gc_event_source example_manager = None"
    by (simp add: example_manager_def)
  have ev: "0 \<le> add_defer_r example_sd_event" "0 \<le> set_priority_r example_sd_event"
    by (simp_all add: example_sd_event_def)
  note t = on_deferred_gc_drops_not_started [where stop = example_stop and m = example_manager
      and ev = example_sd_event and p = 1 and mc = ?a and q = 2 and mq = ?b
      and elsewhere = example_elsewhere]
  from t hyp obtain m' where run: "on_deferred_gc example_stop example_manager = Some (0, m')"
    and a_gone: "machine_gc_queue m' = []" "heap m' 1 = None"
      "calls_for 1 (gc_trace m') =
         calls_for 1 (gc_trace example_manager) @ [Call_stop 1, Call_finalize 1, Call_free 1]"
      "registered_as 1 m' = ([], [], [])"
    by blast
  from t hyp2 obtain m2 where run2: "on_deferred_gc example_stop example_manager = Some (0, m2)"
    and b_live: "heap m2 2 = (if machine_may_gc (after_stop_attempt example_stop True ?b) True
        then None else Some (after_stop_attempt example_stop True ?b))"
      "calls_for 2 (gc_trace m2) =
         calls_for 2 (gc_trace example_manager) @ pass_calls example_stop True 2 ?b"
      "registered_as 2 m2 = (if machine_may_gc (after_stop_attempt example_stop True ?b) True
        then ([], [], []) else registered_as 2 example_manager)"
    by blast
  from run run2 have same: "m2 = m'" by simp
  from run a_gone b_live [unfolded same] b_kept
  have c1: "\<exists>m'. on_deferred_gc example_stop example_manager = Some (0, m') \<and>
      machine_gc_queue m' = [] \<and> heap m' 1 = None \<and>
      calls_for 1 (gc_trace m') = [Call_stop 1, Call_finalize 1, Call_free 1] \<and>
      registered_as 1 m' = ([], [], []) \<and>
      heap m' 2 = Some (?b\<lparr>state := MACHINE_CLOSING, in_gc_queue := False, external_refs := 1\<rparr>) \<and>
      calls_for 2 (gc_trace m') = [Call_stop 2] \<and>
      registered_as 2 m' = ([''b''], [], [''b.scope''])"
    by (simp only: cf b_calls b_after example_registered_b append_Nil if_False simp_thms) blast
  from t hyp have "\<exists>m''. manager_gc example_stop example_manager False = Some m'' \<and>
      heap m'' 1 = Some (?a\<lparr>in_gc_queue := False\<rparr>) \<and>
      calls_for 1 (gc_trace m'') = calls_for 1 (gc_trace example_manager)"
    by blast
  then have c2: "\<exists>m''. manager_gc example_stop example_manager False = Some m'' \<and>
      heap m'' 1 = Some (?a\<lparr>in_gc_queue := False\<rparr>) \<and> calls_for 1 (gc_trace m'') = []"
    by (simp only: cf)
  from t hyp have c3: "on_deferred_gc example_stop example_manager \<noteq>
     map_option (Pair 0) (manager_gc example_stop example_manager False)"
    by blast
  from t none ev have c4:
    "map_option handler (deferred_gc_event_source ?m1) = Some On_deferred_gc"
    and c5: "map_option priority (deferred_gc_event_source ?m1) = Some 100"
    by (simp_all add: SD_EVENT_PRIORITY_IDLE_def)
  from c4 obtain s where src: "deferred_gc_event_source ?m1 = Some s"
    and h: "handler s = On_deferred_gc"
    by auto
  from on_deferred_gc_drops_not_started [where m = ?m1 and ev = example_sd_event] src h
  have c6: "map_option handler (deferred_gc_event_source
      (manager_enqueue_gc example_sd_event ?m1)) = Some On_deferred_gc"
    by simp
  from t hyp none ev(1)
  have "\<exists>s m'. deferred_gc_event_source ?m1 = Some s \<and>
      dispatch_source example_elsewhere s example_stop ?m1 = Some (0, m') \<and>
      machine_gc_queue m' = [] \<and> heap m' 1 = None \<and>
      calls_for 1 (gc_trace m') =
        calls_for 1 (gc_trace example_manager) @ [Call_stop 1, Call_finalize 1, Call_free 1] \<and>
      registered_as 1 m' = ([], [], [])"
    by blast
  then have c7: "\<exists>s m'. deferred_gc_event_source ?m1 = Some s \<and>
      dispatch_source example_elsewhere s example_stop ?m1 = Some (0, m') \<and>
      machine_gc_queue m' = [] \<and> heap m' 1 = None \<and>
      calls_for 1 (gc_trace m') = [Call_stop 1, Call_finalize 1, Call_free 1] \<and>
      registered_as 1 m' = ([], [], [])"
    by (simp only: cf append_Nil)
  from c1 c2 c3 none c4 c5 c6 c7 show ?thesis
    by blast
qed

end
